theory Spec2Isabelle
  imports Main "HOL-Library.Word"
begin

section \<open>Python string operations used by the scripts\<close>

text \<open>
  Strings are lists of 8-bit characters. The operations below are the ones the scripts
  call on \<open>str\<close> values: \<open>s.startswith(p)\<close>, \<open>sub in s\<close>, \<open>s.lower()\<close>,
  \<open>s.strip()\<close>, \<open>s.replace('.', '_')\<close> and the decimal rendering of an integer inside
  an f-string. Case mapping and white space are the ASCII ones.
\<close>

definition startswith :: "string \<Rightarrow> string \<Rightarrow> bool" where
  "startswith s p = (take (length p) s = p)"

fun contains :: "string \<Rightarrow> string \<Rightarrow> bool" where
  "contains sub [] = (sub = [])"
| "contains sub (c # cs) = (startswith (c # cs) sub \<or> contains sub cs)"

definition lower_char :: "char \<Rightarrow> char" where
  "lower_char c =
     (case map_of (zip ''ABCDEFGHIJKLMNOPQRSTUVWXYZ'' ''abcdefghijklmnopqrstuvwxyz'') c of
        Some l \<Rightarrow> l
      | None \<Rightarrow> c)"

definition lower :: "string \<Rightarrow> string" where
  "lower s = map lower_char s"

definition isspace :: "char \<Rightarrow> bool" where
  "isspace c = (let n = (of_char c :: nat) in n = 32 \<or> (9 \<le> n \<and> n \<le> 13) \<or> (28 \<le> n \<and> n \<le> 31))"

definition strip :: "string \<Rightarrow> string" where
  "strip s = rev (dropWhile isspace (rev (dropWhile isspace s)))"

definition replace_char :: "char \<Rightarrow> char \<Rightarrow> string \<Rightarrow> string" where
  "replace_char old new s = map (\<lambda>c. if c = old then new else c) s"

definition digit_char :: "nat \<Rightarrow> char" where
  "digit_char d = ''0123456789'' ! (d mod 10)"

fun str_nat :: "nat \<Rightarrow> string" where
  "str_nat n = (if n < 10 then [digit_char n] else str_nat (n div 10) @ [digit_char (n mod 10)])"

declare str_nat.simps [simp del]

text \<open>\<open>os.path.join(a, b)\<close> on a POSIX system.\<close>

definition path_join :: "string \<Rightarrow> string \<Rightarrow> string" where
  "path_join a b =
     (if startswith b ''/'' then b
      else if a = [] \<or> last a = CHR ''/'' then a @ b
      else a @ ''/'' @ b)"

section \<open>The heuristic splitter of the results summarizer\<close>

text \<open>
  \<open>file.readlines()\<close> on the decoded text of a file: every line keeps its terminating
  newline, and the last line may lack one.
\<close>

fun readlines :: "string \<Rightarrow> string list" where
  "readlines [] = []"
| "readlines (c # cs) =
     (if c = CHR 0x0A then [c] # readlines cs
      else (case readlines cs of [] \<Rightarrow> [[c]] | l # ls \<Rightarrow> (c # l) # ls))"

text \<open>
  The loop of \<open>process_folder\<close> over the lines of one file. The state is the list
  \<open>items\<close> of six buffers and \<open>current_item_index\<close>:

  \<^verbatim>\<open>
      for line in content:
          stripped_line = line.strip()
          if current_item_index < 5 and f'{current_item_index + 2}.' in stripped_line:
              current_item_index += 1
          items[current_item_index] += line
  \<close>
\<close>

definition marker :: "nat \<Rightarrow> string" where
  "marker current_item_index = str_nat (current_item_index + 2) @ ''.''"

definition next_index :: "nat \<Rightarrow> string \<Rightarrow> nat" where
  "next_index current_item_index line =
     (let stripped_line = strip line in
      if current_item_index < 5 \<and> contains (marker current_item_index) stripped_line
      then current_item_index + 1 else current_item_index)"

fun split_loop :: "string list \<Rightarrow> string list \<Rightarrow> nat \<Rightarrow> string list \<times> nat" where
  "split_loop [] items current_item_index = (items, current_item_index)"
| "split_loop (line # content) items current_item_index =
     (let i = next_index current_item_index line
      in split_loop content (items[i := items ! i @ line]) i)"

definition split_state :: "string list \<Rightarrow> string list \<times> nat" where
  "split_state content = split_loop content (replicate 6 '''') 0"

definition split_sections :: "string list \<Rightarrow> string list" where
  "split_sections content = fst (split_state content)"

text \<open>
  The same loop with the buffers kept as lists of lines: which lines went to which section.
  It serves to state that the sections partition the lines of the file.
\<close>

fun block_loop :: "string list \<Rightarrow> string list list \<Rightarrow> nat \<Rightarrow> string list list \<times> nat" where
  "block_loop [] blocks current_item_index = (blocks, current_item_index)"
| "block_loop (line # content) blocks current_item_index =
     (let i = next_index current_item_index line
      in block_loop content (blocks[i := blocks ! i @ [line]]) i)"

definition section_blocks :: "string list \<Rightarrow> string list list" where
  "section_blocks content = fst (block_loop content (replicate 6 []) 0)"

text \<open>
  One worksheet row per file that exists: the file number followed by the six sections.
  A missing file (\<open>FileNotFoundError\<close>) is skipped.
\<close>

definition result_file_name :: "string \<Rightarrow> nat \<Rightarrow> string" where
  "result_file_name folder_path i = path_join folder_path (str_nat i @ ''.png.txt'')"

definition process_folder :: "(string \<rightharpoonup> string) \<Rightarrow> string \<Rightarrow> (nat \<times> string list) list" where
  "process_folder files folder_path =
     List.map_filter
       (\<lambda>i. case files (result_file_name folder_path i) of
              None \<Rightarrow> None
            | Some text \<Rightarrow> Some (i, split_sections (readlines text)))
       [1..<402]"

section \<open>Errors and the imaging library\<close>

text \<open>
  An exception is a value. \<open>ValueError\<close> is the one the encoder raises itself,
  \<open>LibraryError\<close> stands for an exception raised inside a library call (opening,
  decoding, converting, resizing or saving an image), with its message, and
  \<open>SystemExit\<close> is what \<open>sys.exit()\<close> raises.
\<close>

datatype error = ValueError string | LibraryError string | SystemExit

fun str_error :: "error \<Rightarrow> string" where
  "str_error (ValueError m) = m"
| "str_error (LibraryError m) = m"
| "str_error SystemExit = []"

text \<open>
  The scripts reach Pillow, \<open>base64\<close> and Python's float arithmetic only through the
  operations of this record, which every function below takes as its first argument.
  \<open>'img\<close> is the type of decoded images and \<open>'f\<close> the type of floats; no property
  of either is assumed.
\<close>

record ('img, 'f) imaging =
  image_size :: "'img \<Rightarrow> int \<times> int"
  image_is_rgba :: "'img \<Rightarrow> bool"
  convert_rgb :: "'img \<Rightarrow> string + 'img"
  float_pow :: "'f \<Rightarrow> nat \<Rightarrow> 'f"
  int_times_float :: "int \<Rightarrow> 'f \<Rightarrow> 'f"
  float_to_int :: "'f \<Rightarrow> int"
  resize_save_jpeg :: "'img \<Rightarrow> int \<Rightarrow> int \<Rightarrow> string + 8 word list"
  b64encode :: "8 word list \<Rightarrow> string"
  open_encoded :: "string \<Rightarrow> string + 'img"
  open_path :: "string \<Rightarrow> string + 'img"
  factor_0_9 :: "'f"
  factor_0_7 :: "'f"

text \<open>
  \<^item> \<open>image_size\<close>, \<open>image_is_rgba\<close>, \<open>convert_rgb\<close>: \<open>image.size\<close>,
    \<open>image.mode == 'RGBA'\<close>, \<open>image.convert('RGB')\<close>; \<open>Inl\<close> carries the message
    of an exception raised by the conversion;
  \<^item> \<open>float_pow\<close>, \<open>int_times_float\<close>, \<open>float_to_int\<close>: \<open>f ** attempt\<close>,
    \<open>width * x\<close> and \<open>int(x)\<close>;
  \<^item> \<open>resize_save_jpeg image w h\<close>: \<open>Inr\<close> of the bytes written by
    \<open>image.resize((w, h), Image.LANCZOS).save(buffered, format="JPEG")\<close>, so that
    \<open>buffered.tell()\<close> is their number, or \<open>Inl\<close> of the message of the exception
    that \<open>resize\<close> or \<open>save\<close> raises (Pillow refuses, for one, to write an image
    of mode \<open>P\<close>, \<open>LA\<close> or \<open>I;16\<close> as JPEG, and only \<open>RGBA\<close> is converted);
  \<^item> \<open>b64encode bytes\<close>: \<open>base64.b64encode(bytes).decode("utf-8")\<close>;
  \<^item> \<open>open_encoded s\<close>: \<open>Image.open(io.BytesIO(base64.b64decode(s)))\<close>, and
    \<open>open_path p\<close>: \<open>Image.open(p)\<close>; \<open>Inl\<close> carries the message of the exception;
  \<^item> \<open>factor_0_9\<close>, \<open>factor_0_7\<close>: the float literals \<open>0.9\<close> and \<open>0.7\<close>.
\<close>

section \<open>The image encoder\<close>

definition MAX_SIZE :: nat where
  "MAX_SIZE = 20 * 1024 * 1024"

definition new_width :: "('img, 'f) imaging \<Rightarrow> int \<Rightarrow> 'f \<Rightarrow> nat \<Rightarrow> int" where
  "new_width L original_width resize_factor attempt =
     float_to_int L (int_times_float L original_width (float_pow L resize_factor attempt))"

definition new_height :: "('img, 'f) imaging \<Rightarrow> int \<Rightarrow> 'f \<Rightarrow> nat \<Rightarrow> int" where
  "new_height L original_height resize_factor attempt =
     float_to_int L (int_times_float L original_height (float_pow L resize_factor attempt))"

definition buffered ::
  "('img, 'f) imaging \<Rightarrow> 'img \<Rightarrow> int \<Rightarrow> int \<Rightarrow> 'f \<Rightarrow> nat \<Rightarrow> string + 8 word list" where
  "buffered L img original_width original_height resize_factor attempt =
     resize_save_jpeg L img
       (new_width L original_width resize_factor attempt)
       (new_height L original_height resize_factor attempt)"

text \<open>
  The loop \<open>for attempt in range(5)\<close>. The second component of the result lists the
  notices printed on the way, one for each encoding that was too large: the attempt number
  shown (\<open>attempt + 1\<close>) and the size in bytes. An exception raised by \<open>resize\<close> or
  \<open>save\<close> is not caught: it ends the loop at the attempt where it is raised.
\<close>

fun encode_attempts ::
  "('img, 'f) imaging \<Rightarrow> 'img \<Rightarrow> int \<Rightarrow> int \<Rightarrow> 'f \<Rightarrow> nat list
    \<Rightarrow> (error + string) \<times> (nat \<times> nat) list" where
  "encode_attempts L img original_width original_height resize_factor [] =
     (Inl (ValueError ''Unable to reduce image size within 5 attempts''), [])"
| "encode_attempts L img original_width original_height resize_factor (attempt # rest) =
     (case buffered L img original_width original_height resize_factor attempt of
        Inl m \<Rightarrow> (Inl (LibraryError m), [])
      | Inr b \<Rightarrow>
          if length b < MAX_SIZE then (Inr (b64encode L b), [])
          else
            (let (r, printed) =
               encode_attempts L img original_width original_height resize_factor rest
             in (r, (attempt + 1, length b) # printed)))"

definition rgb_image :: "('img, 'f) imaging \<Rightarrow> 'img \<Rightarrow> string + 'img" where
  "rgb_image L img = (if image_is_rgba L img then convert_rgb L img else Inr img)"

definition process_and_encode_image ::
  "('img, 'f) imaging \<Rightarrow> 'img \<Rightarrow> 'f \<Rightarrow> (error + string) \<times> (nat \<times> nat) list" where
  "process_and_encode_image L img resize_factor =
     (let (original_width, original_height) = image_size L img in
      case rgb_image L img of
        Inl m \<Rightarrow> (Inl (LibraryError m), [])
      | Inr img \<Rightarrow>
          encode_attempts L img original_width original_height resize_factor [0..<5])"

text \<open>
  The size in bytes of the JPEG of an attempt that was written (\<open>buffered.tell()\<close>).
\<close>

definition tell :: "string + 8 word list \<Rightarrow> nat" where
  "tell b = (case b of Inl m \<Rightarrow> 0 | Inr bytes \<Rightarrow> length bytes)"

text \<open>
  \<open>base64.b64encode\<close> as RFC 4648 defines it: every three bytes give four characters
  of the alphabet, and a last group of one or two bytes is padded with \<open>=\<close> to four
  characters.
\<close>

definition b64_alphabet :: string where
  "b64_alphabet = ''ABCDEFGHIJKLMNOPQRSTUVWXYZabcdefghijklmnopqrstuvwxyz0123456789+/''"

definition b64_char :: "nat \<Rightarrow> char" where
  "b64_char n = b64_alphabet ! (n mod 64)"

fun rfc4648_b64encode :: "8 word list \<Rightarrow> string" where
  "rfc4648_b64encode [] = []"
| "rfc4648_b64encode [a] =
     (let n = unat a * 16
      in [b64_char (n div 64), b64_char n, CHR ''='', CHR ''=''])"
| "rfc4648_b64encode [a, b] =
     (let n = (unat a * 256 + unat b) * 4
      in [b64_char (n div 4096), b64_char (n div 64), b64_char n, CHR ''=''])"
| "rfc4648_b64encode (a # b # c # rest) =
     (let n = unat a * 65536 + unat b * 256 + unat c
      in [b64_char (n div 262144), b64_char (n div 4096), b64_char (n div 64), b64_char n]
         @ rfc4648_b64encode rest)"

text \<open>
  Re-encoding a list of encoded images (\<open>resize_images\<close> in the Claude script, the same
  loop written inline in the other two): the first exception ends the loop.
\<close>

fun resize_images :: "('img, 'f) imaging \<Rightarrow> 'f \<Rightarrow> string list \<Rightarrow> error + string list" where
  "resize_images L resize_factor [] = Inr []"
| "resize_images L resize_factor (encoded_image # rest) =
     (case open_encoded L encoded_image of
        Inl m \<Rightarrow> Inl (LibraryError m)
      | Inr img \<Rightarrow>
          (case fst (process_and_encode_image L img resize_factor) of
             Inl e \<Rightarrow> Inl e
           | Inr resized_image \<Rightarrow>
               (case resize_images L resize_factor rest of
                  Inl e \<Rightarrow> Inl e
                | Inr resized_encoded_images \<Rightarrow> Inr (resized_image # resized_encoded_images))))"

text \<open>
  \<open>encode_images_from_paths\<close>: an image is encoded only when both its width and its
  height exceed 150 pixels; any other image is left out.
\<close>

fun encode_images_from_paths :: "('img, 'f) imaging \<Rightarrow> string list \<Rightarrow> error + string list" where
  "encode_images_from_paths L [] = Inr []"
| "encode_images_from_paths L (image_path # rest) =
     (case open_path L image_path of
        Inl m \<Rightarrow> Inl (LibraryError m)
      | Inr img \<Rightarrow>
          (let (width, height) = image_size L img in
           if width > 150 \<and> height > 150 then
             (case fst (process_and_encode_image L img (factor_0_9 L)) of
                Inl e \<Rightarrow> Inl e
              | Inr encoded_image \<Rightarrow>
                  (case encode_images_from_paths L rest of
                     Inl e \<Rightarrow> Inl e
                   | Inr images \<Rightarrow> Inr (encoded_image # images)))
           else encode_images_from_paths L rest))"

section \<open>The provider request clients\<close>

text \<open>
  A request carries what varies between calls of the provider: the prompt, the encoded
  images and the sampling temperature. The model name and the output-token cap are
  constants of each script. A call either yields the content of the response or raises
  an exception, of which the clients read only \<open>str(e)\<close>. An exception raised anywhere
  in the \<open>try\<close> block before its \<open>return\<close> is handled by the same \<open>except\<close> clause and
  is an outcome \<open>Raise\<close> as well.

  The provider is a transition of the outside world \<open>'w\<close>: it may answer the same
  request differently each time.
  Creating the API client object, which each function does once before its
  loop, is not part of the model.
\<close>

record 't request =
  req_prompt :: string
  req_images :: "string list"
  req_temperature :: 't

datatype 'c outcome = Reply 'c | Raise string

type_synonym ('t, 'c, 'w) provider = "'w \<Rightarrow> 't request \<Rightarrow> 'c outcome \<times> 'w"

text \<open>
  What one pass through the body of the retry loop decides: go on to the next attempt
  with these encoded images, return a value, or let an exception leave the function.
\<close>

datatype 'r flow = Continue "string list" | Return 'r | Propagate error

definition max_attempts :: nat where
  "max_attempts = 10"

text \<open>
  The skeleton the three clients share:

  \<^verbatim>\<open>
      for attempt in range(max_attempts):
          try:
              ... send prompt_text, encoded_images, temperature ...
              ... return the response, or continue ...
          except Exception as e:
              ... perhaps replace encoded_images ...
      return None
  \<close>

  \<open>body\<close> is the decision of one client. The result comes with the list of the calls
  made, each with its outcome, and with the world after the last call.
\<close>

fun run_attempts ::
  "(nat \<Rightarrow> string list \<Rightarrow> 'c outcome \<Rightarrow> 'r flow) \<Rightarrow> ('t, 'c, 'w) provider \<Rightarrow> string \<Rightarrow> 't
    \<Rightarrow> nat list \<Rightarrow> string list \<Rightarrow> 'w
    \<Rightarrow> (error + 'r option) \<times> ('t request \<times> 'c outcome) list \<times> 'w" where
  "run_attempts body provider prompt_text temperature [] encoded_images w = (Inr None, [], w)"
| "run_attempts body provider prompt_text temperature (attempt # rest) encoded_images w =
     (let req = \<lparr>req_prompt = prompt_text, req_images = encoded_images,
                  req_temperature = temperature\<rparr>;
          (out, w1) = provider w req
      in case body attempt encoded_images out of
           Return r \<Rightarrow> (Inr (Some r), [(req, out)], w1)
         | Propagate e \<Rightarrow> (Inl e, [(req, out)], w1)
         | Continue images \<Rightarrow>
             (let (res, calls, w2) =
                    run_attempts body provider prompt_text temperature rest images w1
              in (res, (req, out) # calls, w2)))"

subsection \<open>GPT-4o\<close>

definition refusal_prefix :: string where
  "refusal_prefix = ''I'm sorry, but''"

text \<open>
  A response whose text starts with the refusal prefix is retried as it is; an exception
  whose lower-cased message contains \<open>image_parse_error\<close> has the images re-encoded,
  except on the last attempt; any other exception goes on to the next attempt. The
  re-encoding runs inside the \<open>except\<close> clause, so an exception it raises leaves the
  function.
\<close>

definition gpt4_body :: "('img, 'f) imaging \<Rightarrow> nat \<Rightarrow> string list \<Rightarrow> string outcome \<Rightarrow> string flow" where
  "gpt4_body L attempt encoded_images out =
     (case out of
        Reply content \<Rightarrow>
          if startswith content refusal_prefix then Continue encoded_images
          else Return content
      | Raise e \<Rightarrow>
          if contains ''image_parse_error'' (lower e) \<and> attempt < max_attempts - 1 then
            (case resize_images L (factor_0_9 L) encoded_images of
               Inl err \<Rightarrow> Propagate err
             | Inr resized_encoded_images \<Rightarrow> Continue resized_encoded_images)
          else Continue encoded_images)"

definition analyze_images_with_gpt4_vision ::
  "('img, 'f) imaging \<Rightarrow> ('t, string, 'w) provider \<Rightarrow> string \<Rightarrow> string list \<Rightarrow> 't \<Rightarrow> 'w
    \<Rightarrow> (error + string option) \<times> ('t request \<times> string outcome) list \<times> 'w" where
  "analyze_images_with_gpt4_vision L provider prompt_text encoded_images temperature w =
     run_attempts (gpt4_body L) provider prompt_text temperature [0..<max_attempts]
       encoded_images w"

subsection \<open>Gemini\<close>

text \<open>
  The content of a Gemini response is a string or a list of parts.
\<close>

datatype content = Str string | Parts "string list"

fun is_short_str :: "content \<Rightarrow> bool" where
  "is_short_str (Str s) = (length s < 10)"
| "is_short_str (Parts ps) = False"

text \<open>
  The \<open>except\<close> clause: the marker \<open>SAFETY\<close> is looked for in the lower-cased message.
\<close>

definition gemini_handler :: "('img, 'f) imaging \<Rightarrow> nat \<Rightarrow> string list \<Rightarrow> string \<Rightarrow> content flow" where
  "gemini_handler L attempt encoded_images e =
     (if contains ''SAFETY'' (lower e) \<and> attempt < max_attempts - 1 then
        (case resize_images L (factor_0_7 L) encoded_images of
           Inl err \<Rightarrow> Propagate err
         | Inr resized_encoded_images \<Rightarrow> Continue resized_encoded_images)
      else Continue encoded_images)"

text \<open>
  A string of fewer than 10 characters has the images re-encoded and is retried. That
  re-encoding runs inside the \<open>try\<close> block: an exception it raises is handled by the
  \<open>except\<close> clause, with the images as they were.
\<close>

definition gemini_body :: "('img, 'f) imaging \<Rightarrow> nat \<Rightarrow> string list \<Rightarrow> content outcome \<Rightarrow> content flow" where
  "gemini_body L attempt encoded_images out =
     (case out of
        Reply result_content \<Rightarrow>
          if is_short_str result_content then
            (case resize_images L (factor_0_9 L) encoded_images of
               Inl err \<Rightarrow> gemini_handler L attempt encoded_images (str_error err)
             | Inr resized_encoded_images \<Rightarrow> Continue resized_encoded_images)
          else Return result_content
      | Raise e \<Rightarrow> gemini_handler L attempt encoded_images e)"

definition analyze_images_with_gemini_vision ::
  "('img, 'f) imaging \<Rightarrow> ('t, content, 'w) provider \<Rightarrow> string \<Rightarrow> string list \<Rightarrow> 't \<Rightarrow> 'w
    \<Rightarrow> (error + content option) \<times> ('t request \<times> content outcome) list \<times> 'w" where
  "analyze_images_with_gemini_vision L provider prompt_text encoded_images temperature w =
     run_attempts (gemini_body L) provider prompt_text temperature [0..<max_attempts]
       encoded_images w"

subsection \<open>Claude\<close>

text \<open>
  The \<open>except\<close> clause first looks for \<open>exceeded\<close> in the lower-cased message: it then
  saves the execution-time table and calls \<open>sys.exit()\<close>. In the loop body this is the
  flow \<open>Propagate SystemExit\<close>, which nothing else produces; the client applies the write
  of the table where the loop ends that way.
\<close>

definition claude_body :: "('img, 'f) imaging \<Rightarrow> nat \<Rightarrow> string list \<Rightarrow> string outcome \<Rightarrow> string flow" where
  "claude_body L attempt encoded_images out =
     (case out of
        Reply text \<Rightarrow>
          if startswith text refusal_prefix then Continue encoded_images
          else Return text
      | Raise e \<Rightarrow>
          if contains ''exceeded'' (lower e) then Propagate SystemExit
          else if contains ''image_parse_error'' (lower e) \<and> attempt < max_attempts - 1 then
            (case resize_images L (factor_0_9 L) encoded_images of
               Inl err \<Rightarrow> Propagate err
             | Inr resized_encoded_images \<Rightarrow> Continue resized_encoded_images)
          else Continue encoded_images)"

section \<open>The timing recorder\<close>

text \<open>
  The execution-time table \<open>df_execution_times\<close> is a list of rows with the columns
  \<open>number\<close>, \<open>temperature\<close>, \<open>try\<close> and \<open>time\<close>. The workbook on disk holds such a
  table under a file name.
\<close>

record ('t, 'tm) timing_row =
  row_number :: nat
  row_temperature :: 't
  row_try :: nat
  row_time :: 'tm

definition key_matches :: "nat \<Rightarrow> 't \<Rightarrow> nat \<Rightarrow> ('t, 'tm) timing_row \<Rightarrow> bool" where
  "key_matches case_number temperature try_number r =
     (row_number r = case_number \<and> row_temperature r = temperature \<and> row_try r = try_number)"

text \<open>
  \<^verbatim>\<open>
      if ((df['number'] == case_number) & (df['temperature'] == temperature) &
          (df['try'] == try_number)).any():
          df.loc[<the same mask>, 'time'] = execution_time
      else:
          df = pd.concat([df, pd.DataFrame([new_row])], ignore_index=True)
  \<close>
\<close>

definition record_time ::
  "('t, 'tm) timing_row list \<Rightarrow> nat \<Rightarrow> 't \<Rightarrow> nat \<Rightarrow> 'tm \<Rightarrow> ('t, 'tm) timing_row list" where
  "record_time df case_number temperature try_number execution_time =
     (if list_ex (key_matches case_number temperature try_number) df then
        map (\<lambda>r. if key_matches case_number temperature try_number r
                 then r\<lparr>row_time := execution_time\<rparr> else r) df
      else
        df @ [\<lparr>row_number = case_number, row_temperature = temperature,
                row_try = try_number, row_time = execution_time\<rparr>])"

definition load_or_initialize_execution_times ::
  "(string \<rightharpoonup> ('t, 'tm) timing_row list) \<Rightarrow> string \<Rightarrow> ('t, 'tm) timing_row list" where
  "load_or_initialize_execution_times sheets time_file_name =
     (case sheets time_file_name of Some df \<Rightarrow> df | None \<Rightarrow> [])"

definition save_execution_times_to_excel ::
  "('t, 'tm) timing_row list \<Rightarrow> string
    \<Rightarrow> (string \<rightharpoonup> ('t, 'tm) timing_row list) \<Rightarrow> (string \<rightharpoonup> ('t, 'tm) timing_row list)" where
  "save_execution_times_to_excel df time_file_name sheets = sheets(time_file_name \<mapsto> df)"

text \<open>The key of a row, and the rows of a table that carry a given key.\<close>

definition row_key :: "('t, 'tm) timing_row \<Rightarrow> nat \<times> 't \<times> nat" where
  "row_key r = (row_number r, row_temperature r, row_try r)"

definition rows_with_key :: "nat \<Rightarrow> 't \<Rightarrow> nat \<Rightarrow> ('t, 'tm) timing_row list \<Rightarrow> ('t, 'tm) timing_row list" where
  "rows_with_key case_number temperature try_number df =
     filter (key_matches case_number temperature try_number) df"

section \<open>The Claude client and the workbook\<close>

definition claude_time_file_name :: string where
  "claude_time_file_name = ''Claude_execution_times.xlsx''"

text \<open>
  \<open>df_execution_times\<close> is the table of the module, read by the \<open>except\<close> clause;
  \<open>sheets\<close> are the workbooks on disk.
\<close>

definition analyze_images_with_claude_vision ::
  "('img, 'f) imaging \<Rightarrow> ('t, string, 'w) provider \<Rightarrow> ('t, 'tm) timing_row list
    \<Rightarrow> string \<Rightarrow> string list \<Rightarrow> 't \<Rightarrow> 'w \<Rightarrow> (string \<rightharpoonup> ('t, 'tm) timing_row list)
    \<Rightarrow> ((error + string option) \<times> ('t request \<times> string outcome) list \<times> 'w)
        \<times> (string \<rightharpoonup> ('t, 'tm) timing_row list)" where
  "analyze_images_with_claude_vision L provider df_execution_times prompt_text encoded_images
       temperature w sheets =
     (let (res, calls, w') =
            run_attempts (claude_body L) provider prompt_text temperature [0..<max_attempts]
              encoded_images w
      in ((res, calls, w'),
          if res = Inl SystemExit
          then save_execution_times_to_excel df_execution_times claude_time_file_name sheets
          else sheets))"

section \<open>The GPT-4o batch runner\<close>

text \<open>The temperature settings \<open>[0, 0.5, 1]\<close> and what \<open>str\<close> prints for each.\<close>

datatype temperature = Temp_0 | Temp_0_5 | Temp_1

definition temperatures :: "temperature list" where
  "temperatures = [Temp_0, Temp_0_5, Temp_1]"

fun str_temperature :: "temperature \<Rightarrow> string" where
  "str_temperature Temp_0 = ''0''"
| "str_temperature Temp_0_5 = ''0.5''"
| "str_temperature Temp_1 = ''1''"

text \<open>One row of the input spreadsheet, each cell as the f-strings print it.\<close>

record case_row =
  case_no :: string
  case_age :: string
  case_sex :: string
  case_symptom :: string

text \<open>
  What the runner takes from outside: the imaging library, the provider, the input
  spreadsheet, the wall-clock time elapsed between two states of the world, and the fixed
  text of the prompt around the two interpolated fields.
\<close>

record ('img, 'f, 'w, 'tm) env =
  lib :: "('img, 'f) imaging"
  provider :: "(temperature, string, 'w) provider"
  cases :: "case_row list"
  elapsed :: "'w \<Rightarrow> 'w \<Rightarrow> 'tm"
  prompt_head :: string
  prompt_middle :: string
  prompt_tail :: string

text \<open>
  The state of a run: the text files on disk (result files and the log file), the
  workbooks on disk, the directories, the table of the module, the outside world, and
  the provider calls made so far.
\<close>

record ('w, 'tm) run_state =
  files :: "string \<rightharpoonup> string"
  sheets :: "string \<rightharpoonup> (temperature, 'tm) timing_row list"
  dirs :: "string set"
  df_execution_times :: "(temperature, 'tm) timing_row list"
  world :: 'w
  requests :: "(temperature request \<times> string outcome) list"

definition time_file_name :: string where
  "time_file_name = ''OpenAI_gpt4o_execution_times.xlsx''"

definition log_file_path :: string where
  "log_file_path = ''./process_log_gpt4o.txt''"

definition base_result_folder :: string where
  "base_result_folder = ''gpt4o_result/gpt4o_result''"

definition path_exists :: "('w, 'tm) run_state \<Rightarrow> string \<Rightarrow> bool" where
  "path_exists s p = (p \<in> dom (files s) \<or> p \<in> dom (sheets s) \<or> p \<in> dirs s)"

definition log_message :: "string \<Rightarrow> ('w, 'tm) run_state \<Rightarrow> ('w, 'tm) run_state" where
  "log_message message s =
     s\<lparr>files := (files s)(log_file_path \<mapsto>
          (case files s log_file_path of None \<Rightarrow> [] | Some old \<Rightarrow> old) @ message @ [CHR 0x0A])\<rparr>"

definition folder_name :: "string \<Rightarrow> temperature \<Rightarrow> nat \<Rightarrow> string" where
  "folder_name base_folder temperature try_number =
     base_folder @ ''_temp_'' @ replace_char CHR ''.'' CHR ''_'' (str_temperature temperature)
       @ ''_try'' @ str_nat try_number"

definition create_result_folder ::
  "string \<Rightarrow> temperature \<Rightarrow> nat \<Rightarrow> ('w, 'tm) run_state \<Rightarrow> string \<times> ('w, 'tm) run_state" where
  "create_result_folder base_folder temperature try_number s =
     (let name = folder_name base_folder temperature try_number
      in (name, s\<lparr>dirs := insert name (dirs s)\<rparr>))"

definition image_file_name :: "case_row \<Rightarrow> string" where
  "image_file_name row = case_no row @ ''.png''"

definition result_file_path :: "string \<Rightarrow> case_row \<Rightarrow> string" where
  "result_file_path directory_path row = path_join directory_path (image_file_name row @ ''.txt'')"

definition prompt_text :: "('img, 'f, 'w, 'tm) env \<Rightarrow> case_row \<Rightarrow> string" where
  "prompt_text E row =
     (let history_text = ''age: '' @ case_age row @ '', sex: '' @ case_sex row;
          symptom_text = ''symptom: '' @ case_symptom row
      in prompt_head E @ history_text @ prompt_middle E @ symptom_text @ prompt_tail E)"

definition no_results_message :: "nat \<Rightarrow> temperature \<Rightarrow> nat \<Rightarrow> string" where
  "no_results_message case_number temperature try_number =
     ''Case '' @ str_nat case_number @ '' (Temperature: '' @ str_temperature temperature
       @ '', Try: '' @ str_nat try_number @ ''): No results found.''"

text \<open>
  The body of the loop over the rows of the spreadsheet. An exception that nothing catches
  ends the script: the result then carries it, with the state reached.
\<close>

definition process_case ::
  "('img, 'f, 'w, 'tm) env \<Rightarrow> temperature \<Rightarrow> nat \<Rightarrow> string \<Rightarrow> nat \<Rightarrow> case_row
    \<Rightarrow> ('w, 'tm) run_state \<Rightarrow> error option \<times> ('w, 'tm) run_state" where
  "process_case E temperature try_number result_folder index row s0 =
     (let case_number = index + 1;
          s = s0\<lparr>dirs := insert result_folder (dirs s0)\<rparr>;
          path = result_file_path result_folder row
      in if path_exists s path then (None, s)
         else
           (case encode_images_from_paths (lib E)
                   [path_join ''q401_image'' (image_file_name row)] of
              Inl e \<Rightarrow> (Some e, s)
            | Inr encoded_images \<Rightarrow>
                (let (result, calls, w') =
                       analyze_images_with_gpt4_vision (lib E) (provider E) (prompt_text E row)
                         encoded_images temperature (world s);
                     execution_time = elapsed E (world s) w';
                     s1 = s\<lparr>world := w', requests := requests s @ calls\<rparr>
                 in case result of
                      Inl e \<Rightarrow> (Some e, s1)
                    | Inr result \<Rightarrow>
                        (let s2 = s1\<lparr>df_execution_times :=
                                     record_time (df_execution_times s1) case_number temperature
                                       try_number execution_time\<rparr>
                         in case result of
                              Some content \<Rightarrow> (None, s2\<lparr>files := (files s2)(path \<mapsto> content)\<rparr>)
                            | None \<Rightarrow>
                                (None, log_message
                                   (no_results_message case_number temperature try_number) s2)))))"

fun process_rows ::
  "('img, 'f, 'w, 'tm) env \<Rightarrow> temperature \<Rightarrow> nat \<Rightarrow> string \<Rightarrow> (nat \<times> case_row) list
    \<Rightarrow> ('w, 'tm) run_state \<Rightarrow> error option \<times> ('w, 'tm) run_state" where
  "process_rows E temperature try_number result_folder [] s = (None, s)"
| "process_rows E temperature try_number result_folder ((index, row) # rest) s =
     (case process_case E temperature try_number result_folder index row s of
        (Some e, s') \<Rightarrow> (Some e, s')
      | (None, s') \<Rightarrow> process_rows E temperature try_number result_folder rest s')"

fun process_tries ::
  "('img, 'f, 'w, 'tm) env \<Rightarrow> temperature \<Rightarrow> nat list
    \<Rightarrow> ('w, 'tm) run_state \<Rightarrow> error option \<times> ('w, 'tm) run_state" where
  "process_tries E temperature [] s = (None, s)"
| "process_tries E temperature (try_number # rest) s =
     (let (result_folder, s) = create_result_folder base_result_folder temperature try_number s
      in case process_rows E temperature try_number result_folder
                (zip [0..<length (cases E)] (cases E)) s of
           (Some e, s') \<Rightarrow> (Some e, s')
         | (None, s') \<Rightarrow> process_tries E temperature rest s')"

fun process_temperatures ::
  "('img, 'f, 'w, 'tm) env \<Rightarrow> temperature list
    \<Rightarrow> ('w, 'tm) run_state \<Rightarrow> error option \<times> ('w, 'tm) run_state" where
  "process_temperatures E [] s = (None, s)"
| "process_temperatures E (temperature # rest) s =
     (case process_tries E temperature [1..<2] s of
        (Some e, s') \<Rightarrow> (Some e, s')
      | (None, s') \<Rightarrow> process_temperatures E rest s')"

text \<open>
  The script from top to bottom: load the table, run the loops, save the table. The
  table is saved only when the loops end without an exception.
\<close>

definition gpt4o_main ::
  "('img, 'f, 'w, 'tm) env \<Rightarrow> ('w, 'tm) run_state \<Rightarrow> error option \<times> ('w, 'tm) run_state" where
  "gpt4o_main E s =
     (let s = s\<lparr>df_execution_times := load_or_initialize_execution_times (sheets s) time_file_name\<rparr>
      in case process_temperatures E temperatures s of
           (Some e, s') \<Rightarrow> (Some e, s')
         | (None, s') \<Rightarrow>
             (None, s'\<lparr>sheets := save_execution_times_to_excel (df_execution_times s')
                                   time_file_name (sheets s')\<rparr>))"

section \<open>A concrete library and concrete providers\<close>

text \<open>
  An instance of the imaging record on which the functions can be evaluated: an image is
  its pair of dimensions, a float is an exact fraction (numerator, denominator), the JPEG
  of a \<open>w \<times> h\<close> image has \<open>w * h\<close> bytes when that is at most 40000 and \<open>MAX_SIZE\<close> more
  otherwise, and an encoded image decodes to an image as wide as the string is long.
\<close>

definition sample_imaging :: "(int \<times> int, int \<times> int) imaging" where
  "sample_imaging =
     \<lparr>image_size = (\<lambda>im. im),
      image_is_rgba = (\<lambda>im. False),
      convert_rgb = (\<lambda>im. Inr im),
      float_pow = (\<lambda>(n, d) k. (n ^ k, d ^ k)),
      int_times_float = (\<lambda>i (n, d). (i * n, d)),
      float_to_int = (\<lambda>(n, d). n div d),
      resize_save_jpeg =
        (\<lambda>im w h.
           Inr (replicate (if 40000 < w * h then MAX_SIZE + nat (w * h) else nat (w * h)) 0)),
      b64encode = map (\<lambda>b. CHR ''A''),
      open_encoded = (\<lambda>s. Inr (int (length s), 1)),
      open_path = (\<lambda>p. Inr (200, 160)),
      factor_0_9 = (9, 10),
      factor_0_7 = (7, 10)\<rparr>"

text \<open>
  Two more libraries. In the first the JPEG of a \<open>w \<times> h\<close> image has one byte for
  every pixel and \<open>b64encode\<close> is the encoding of RFC 4648. In the second \<open>save\<close>
  refuses the image, as Pillow does for an image of mode \<open>P\<close>.
\<close>

definition byte_per_pixel_imaging :: "(int \<times> int, int \<times> int) imaging" where
  "byte_per_pixel_imaging =
     sample_imaging
       \<lparr>resize_save_jpeg := (\<lambda>im w h. Inr (replicate (nat (w * h)) 0)),
        b64encode := rfc4648_b64encode\<rparr>"

definition palette_imaging :: "(int \<times> int, int \<times> int) imaging" where
  "palette_imaging =
     sample_imaging\<lparr>resize_save_jpeg := (\<lambda>im w h. Inl ''cannot write mode P as JPEG'')\<rparr>"

text \<open>
  A provider that answers from a script: the world is the list of outcomes still to come,
  and \<open>otherwise\<close> is the outcome once the script has run out.
\<close>

definition scripted :: "'c outcome \<Rightarrow> ('t, 'c, 'c outcome list) provider" where
  "scripted otherwise w req = (case w of [] \<Rightarrow> (otherwise, []) | out # rest \<Rightarrow> (out, rest))"

text \<open>Which outcomes end a client's loop with a returned response.\<close>

definition gpt4_qualifying :: "string outcome \<Rightarrow> bool" where
  "gpt4_qualifying out =
     (case out of Reply content \<Rightarrow> \<not> startswith content refusal_prefix | Raise e \<Rightarrow> False)"

definition gemini_qualifying :: "content outcome \<Rightarrow> bool" where
  "gemini_qualifying out =
     (case out of Reply result_content \<Rightarrow> \<not> is_short_str result_content | Raise e \<Rightarrow> False)"

text \<open>
  For the Claude client an exception whose message signals an exceeded quota is neither:
  it ends the process.
\<close>

definition claude_fatal :: "string outcome \<Rightarrow> bool" where
  "claude_fatal out =
     (case out of Reply text \<Rightarrow> False | Raise e \<Rightarrow> contains ''exceeded'' (lower e))"

text \<open>
  An environment of the batch runner with one case, whose image is 200 by 160 pixels, and
  a state of the disk with the text files of an association list and nothing else.
\<close>

definition sample_env ::
  "string outcome \<Rightarrow> (int \<times> int, int \<times> int, string outcome list, nat) env" where
  "sample_env otherwise =
     \<lparr>lib = sample_imaging,
      provider = scripted otherwise,
      cases = [\<lparr>case_no = ''7'', case_age = ''54'', case_sex = ''F'',
                case_symptom = ''headache''\<rparr>],
      elapsed = (\<lambda>w w'. 3),
      prompt_head = ''Patient: '',
      prompt_middle = ''; '',
      prompt_tail = ''.''\<rparr>"

definition sample_state ::
  "(string \<times> string) list \<Rightarrow> string outcome list \<Rightarrow> (string outcome list, nat) run_state" where
  "sample_state fs w =
     \<lparr>files = map_of fs, sheets = Map.empty, dirs = {}, df_execution_times = [], world = w,
      requests = []\<rparr>"

section \<open>Properties of the splitter\<close>

lemma concat_readlines: "concat (readlines s) = s"
  by (induction s) (auto split: list.splits)

lemma next_index_bounds:
  "i \<le> next_index i line" "next_index i line \<le> Suc i" "i \<le> 5 \<Longrightarrow> next_index i line \<le> 5"
  by (auto simp: next_index_def Let_def)

lemma split_loop_snoc:
  "split_loop (content @ [line]) items i =
     (let (items', i') = split_loop content items i; j = next_index i' line
      in (items'[j := items' ! j @ line], j))"
  by (induction content arbitrary: items i) (simp_all add: Let_def)

lemma split_loop_index:
  "i \<le> 5 \<Longrightarrow> snd (split_loop content items i) \<le> 5"
  by (induction content arbitrary: items i) (simp_all add: Let_def next_index_bounds)

lemma block_loop_length:
  "length (fst (block_loop content blocks i)) = length blocks"
  by (induction content arbitrary: blocks i) (simp_all add: Let_def)

text \<open>The buffers of characters are the concatenated buffers of lines.\<close>

lemma map_concat_update:
  "map concat (blocks[j := blocks ! j @ [line]])
     = (map concat blocks)[j := map concat blocks ! j @ line]"
proof (cases "j < length blocks")
  case True
  then show ?thesis by (simp add: map_update)
next
  case False
  then show ?thesis by (simp add: list_update_beyond)
qed

lemma concat_map_concat: "concat (map concat xss) = concat (concat xss)"
  by (induction xss) simp_all

lemma split_loop_blocks:
  "split_loop content (map concat blocks) i =
     (map concat (fst (block_loop content blocks i)), snd (block_loop content blocks i))"
proof (induction content arbitrary: blocks i)
  case Nil
  show ?case by simp
next
  case (Cons line content)
  show ?case
    using Cons.IH[of "blocks[next_index i line := blocks ! next_index i line @ [line]]"
        "next_index i line"]
    by (simp add: Let_def map_concat_update)
qed

text \<open>
  While the loop runs, every buffer after the current one is still empty, so appending
  to the current buffer appends to the concatenation of all buffers.
\<close>

lemma concat_update_last:
  assumes "i < length items" and "\<forall>j. i < j \<and> j < length items \<longrightarrow> items ! j = []"
  shows "concat (items[i := items ! i @ line]) = concat items @ line"
proof -
  have tail: "concat (drop (Suc i) items) = []"
    using assms(2) by (auto simp: in_set_conv_nth)
  have "items = take i items @ (items ! i) # drop (Suc i) items"
    using assms(1) by (simp add: id_take_nth_drop)
  then have c: "concat items = concat (take i items) @ items ! i @ concat (drop (Suc i) items)"
    by (metis concat.simps(2) concat_append)
  have "items[i := items ! i @ line] = take i items @ (items ! i @ line) # drop (Suc i) items"
    using assms(1) by (simp add: upd_conv_take_nth_drop)
  then have "concat (items[i := items ! i @ line])
      = concat (take i items) @ (items ! i @ line) @ concat (drop (Suc i) items)"
    by (metis concat.simps(2) concat_append)
  with c tail show ?thesis by simp
qed

lemma concat_block_loop:
  assumes "i < length blocks" and "length blocks = 6"
    and "\<forall>j. i < j \<and> j < length blocks \<longrightarrow> blocks ! j = []"
  shows "concat (fst (block_loop content blocks i)) = concat blocks @ content"
  using assms
proof (induction content arbitrary: blocks i)
  case Nil
  then show ?case by simp
next
  case (Cons line content)
  define k where "k = next_index i line"
  have k: "i \<le> k" "k < length blocks"
    using Cons.prems next_index_bounds[of i line] by (auto simp: k_def)
  have empty: "\<forall>j. k < j \<and> j < length blocks \<longrightarrow> blocks ! j = []"
    using Cons.prems(3) k(1) by auto
  have step: "concat (blocks[k := blocks ! k @ [line]]) = concat blocks @ [line]"
    using concat_update_last[OF k(2) empty] .
  have "concat (fst (block_loop content (blocks[k := blocks ! k @ [line]]) k))
      = concat (blocks[k := blocks ! k @ [line]]) @ content"
  proof (rule Cons.IH)
    show "k < length (blocks[k := blocks ! k @ [line]])" using k(2) by simp
    show "length (blocks[k := blocks ! k @ [line]]) = 6" using Cons.prems(2) by simp
    show "\<forall>j. k < j \<and> j < length (blocks[k := blocks ! k @ [line]])
        \<longrightarrow> blocks[k := blocks ! k @ [line]] ! j = []"
      using empty by auto
  qed
  with step show ?case by (simp add: k_def Let_def)
qed

lemma concat_section_blocks: "concat (section_blocks content) = content"
  using concat_block_loop[of 0 "replicate 6 []" content]
  by (auto simp: section_blocks_def)

lemma length_section_blocks: "length (section_blocks content) = 6"
  by (simp add: section_blocks_def block_loop_length)

lemma split_sections_blocks: "split_sections content = map concat (section_blocks content)"
  using split_loop_blocks[of content "replicate 6 []" 0]
  by (simp add: split_sections_def split_state_def section_blocks_def)

lemma length_split_sections: "length (split_sections content) = 6"
  by (simp add: split_sections_blocks length_section_blocks)

lemma split_state_snoc:
  "split_state (content @ [line]) =
     (let (items, i) = split_state content;
          j = (if i < 5 \<and> contains (str_nat (i + 2) @ ''.'') (strip line) then i + 1 else i)
      in (items[j := items ! j @ line], j))"
  by (simp add: split_state_def split_loop_snoc next_index_def marker_def Let_def
      split: prod.splits)

lemma split_state_index: "snd (split_state content) \<le> 5"
  by (simp add: split_state_def split_loop_index)

lemma six_lines_terminated:
  "split_sections (readlines ''1. A\<newline>2. B\<newline>3. C\<newline>4. D\<newline>5. E\<newline>6. F\<newline>'')
     = [''1. A\<newline>'', ''2. B\<newline>'', ''3. C\<newline>'', ''4. D\<newline>'', ''5. E\<newline>'', ''6. F\<newline>'']"
  by code_simp

lemma six_lines_unterminated_last:
  "split_sections (readlines ''1. A\<newline>2. B\<newline>3. C\<newline>4. D\<newline>5. E\<newline>6. F'')
     = [''1. A\<newline>'', ''2. B\<newline>'', ''3. C\<newline>'', ''4. D\<newline>'', ''5. E\<newline>'', ''6. F'']"
  by code_simp

lemma six_lines_bare:
  "split_sections [''1. A'', ''2. B'', ''3. C'', ''4. D'', ''5. E'', ''6. F'']
     = [''1. A'', ''2. B'', ''3. C'', ''4. D'', ''5. E'', ''6. F'']"
  by code_simp

text \<open>
  Claim C2. A file whose lines are \<open>1. A\<close>, \<open>2. B\<close>, \<open>3. C\<close>, \<open>4. D\<close>, \<open>5. E\<close>, \<open>6. F\<close>
  is split into exactly six sections, in order, each holding its own line and nothing
  else (with every line terminated, with the last line unterminated, and for the bare
  lines). In general there are always six sections; the section index never exceeds 5;
  and processing one more line moves the index from \<open>i\<close> to \<open>i + 1\<close> exactly when
  \<open>i < 5\<close> and the stripped line contains the decimal of \<open>i + 2\<close> followed by a dot,
  and then appends the whole line, marker line included, to the section of the index
  so reached.
\<close>

theorem splitter_numbered_sections:
  "split_sections (readlines ''1. A\<newline>2. B\<newline>3. C\<newline>4. D\<newline>5. E\<newline>6. F\<newline>'')
     = [''1. A\<newline>'', ''2. B\<newline>'', ''3. C\<newline>'', ''4. D\<newline>'', ''5. E\<newline>'', ''6. F\<newline>'']
   \<and> split_sections (readlines ''1. A\<newline>2. B\<newline>3. C\<newline>4. D\<newline>5. E\<newline>6. F'')
     = [''1. A\<newline>'', ''2. B\<newline>'', ''3. C\<newline>'', ''4. D\<newline>'', ''5. E\<newline>'', ''6. F'']
   \<and> split_sections [''1. A'', ''2. B'', ''3. C'', ''4. D'', ''5. E'', ''6. F'']
     = [''1. A'', ''2. B'', ''3. C'', ''4. D'', ''5. E'', ''6. F'']
   \<and> length (split_sections content) = 6
   \<and> snd (split_state content) \<le> 5
   \<and> split_state (content @ [line]) =
       (let (items, i) = split_state content;
            j = (if i < 5 \<and> contains (str_nat (i + 2) @ ''.'') (strip line) then i + 1 else i)
        in (items[j := items ! j @ line], j))"
proof (intro conjI)
  show "split_state (content @ [line]) =
       (let (items, i) = split_state content;
            j = (if i < 5 \<and> contains (str_nat (i + 2) @ ''.'') (strip line) then i + 1 else i)
        in (items[j := items ! j @ line], j))"
    by (rule split_state_snoc)
qed (rule six_lines_terminated six_lines_unterminated_last six_lines_bare
      length_split_sections split_state_index)+

text \<open>
  Claim C9. The six sections, concatenated, are the text of the file, whatever markers
  occur: the sections are the concatenations of six consecutive blocks of lines that
  together are exactly the lines of the file, in order, so every line lies in exactly
  one section. The text is the one \<open>readlines\<close> works on, after the decoding and newline
  translation of Python's text mode.
\<close>

theorem splitter_partitions_file:
  "concat (split_sections (readlines text)) = text
   \<and> concat (split_sections content) = concat content
   \<and> (\<exists>blocks. length blocks = 6 \<and> concat blocks = content
         \<and> split_sections content = map concat blocks)"
proof (intro conjI)
  have blocks: "length (section_blocks c) = 6 \<and> concat (section_blocks c) = c
      \<and> split_sections c = map concat (section_blocks c)" for c
    by (simp add: length_section_blocks concat_section_blocks split_sections_blocks)
  show "\<exists>blocks. length blocks = 6 \<and> concat blocks = content
         \<and> split_sections content = map concat blocks"
    using blocks[of content] by blast
  have flat: "concat (split_sections c) = concat c" for c
  proof -
    have "concat (map concat (section_blocks c)) = concat (concat (section_blocks c))"
      by (rule concat_map_concat)
    then show ?thesis by (simp add: split_sections_blocks concat_section_blocks)
  qed
  show "concat (split_sections content) = concat content" by (rule flat)
  show "concat (split_sections (readlines text)) = text"
    by (simp add: flat concat_readlines)
qed

section \<open>Properties of the image encoder\<close>

text \<open>
  The loop over a range of attempts ends in one of three ways: it returns the first
  encoding below \<open>MAX_SIZE\<close>, it fails after a notice for every attempt of the range, or
  it is left by the exception of the first attempt that could not be written. In each
  case every attempt before the end was written, was at least \<open>MAX_SIZE\<close> long, and was
  reported.
\<close>

lemma encode_attempts_upt:
  fixes L :: "('img, 'f) imaging"
  defines "g \<equiv> \<lambda>im w h f j. (j + 1, tell (buffered L im w h f j))"
  defines "big \<equiv> \<lambda>im w h f j. \<exists>c. buffered L im w h f j = Inr c \<and> MAX_SIZE \<le> length c"
  shows "(\<exists>k b. a \<le> k \<and> k < a + n \<and> buffered L im w h f k = Inr b \<and> length b < MAX_SIZE
           \<and> (\<forall>j. a \<le> j \<and> j < k \<longrightarrow> big im w h f j)
           \<and> encode_attempts L im w h f [a..<a + n]
               = (Inr (b64encode L b), map (g im w h f) [a..<k]))
       \<or> ((\<forall>j. a \<le> j \<and> j < a + n \<longrightarrow> big im w h f j)
           \<and> encode_attempts L im w h f [a..<a + n]
               = (Inl (ValueError ''Unable to reduce image size within 5 attempts''),
                  map (g im w h f) [a..<a + n]))
       \<or> (\<exists>k m. a \<le> k \<and> k < a + n \<and> buffered L im w h f k = Inl m
           \<and> (\<forall>j. a \<le> j \<and> j < k \<longrightarrow> big im w h f j)
           \<and> encode_attempts L im w h f [a..<a + n]
               = (Inl (LibraryError m), map (g im w h f) [a..<k]))"
proof (induction n arbitrary: a)
  case 0
  show ?case by auto
next
  case (Suc n)
  have upt: "[a..<a + Suc n] = a # [Suc a..<Suc a + n]"
    by (simp add: upt_rec)
  show ?case
  proof (cases "buffered L im w h f a")
    case (Inl m)
    then have "encode_attempts L im w h f [a..<a + Suc n]
        = (Inl (LibraryError m), map (g im w h f) [a..<a])"
      unfolding upt by simp
    with Inl show ?thesis by (intro disjI2 exI[of _ a] exI[of _ m]) auto
  next
    case (Inr b)
    show ?thesis
    proof (cases "length b < MAX_SIZE")
      case True
      with Inr have "encode_attempts L im w h f [a..<a + Suc n]
          = (Inr (b64encode L b), map (g im w h f) [a..<a])"
        unfolding upt by simp
      with True Inr show ?thesis by (intro disjI1 exI[of _ a] exI[of _ b]) auto
    next
      case False
      with Inr have biga: "big im w h f a" by (simp add: big_def)
      have ga: "g im w h f a = (a + 1, length b)" using Inr by (simp add: g_def tell_def)
      have ext: "\<forall>j. a \<le> j \<and> j < k \<longrightarrow> big im w h f j"
        if "\<forall>j. Suc a \<le> j \<and> j < k \<longrightarrow> big im w h f j" for k
        using that biga by (metis Suc_leI le_neq_implies_less)
      have step: "encode_attempts L im w h f [a..<a + Suc n] = (r, map (g im w h f) [a..<k])"
        if "encode_attempts L im w h f [Suc a..<Suc a + n] = (r, map (g im w h f) [Suc a..<k])"
          and "a < k" for r k
      proof -
        have "[a..<k] = a # [Suc a..<k]" using that(2) by (simp add: upt_rec)
        then show ?thesis using that(1) Inr False ga unfolding upt by simp
      qed
      from Suc.IH[of "Suc a"] show ?thesis
      proof (elim disjE exE conjE)
        fix k c
        assume k: "Suc a \<le> k" "k < Suc a + n" "buffered L im w h f k = Inr c"
          "length c < MAX_SIZE"
          and before: "\<forall>j. Suc a \<le> j \<and> j < k \<longrightarrow> big im w h f j"
          and res: "encode_attempts L im w h f [Suc a..<Suc a + n]
                 = (Inr (b64encode L c), map (g im w h f) [Suc a..<k])"
        have "encode_attempts L im w h f [a..<a + Suc n]
            = (Inr (b64encode L c), map (g im w h f) [a..<k])"
          using step[OF res] k(1) by simp
        with k ext[OF before] show ?thesis
          by (intro disjI1 exI[of _ k] exI[of _ c]) simp
      next
        assume before: "\<forall>j. Suc a \<le> j \<and> j < Suc a + n \<longrightarrow> big im w h f j"
          and res: "encode_attempts L im w h f [Suc a..<Suc a + n]
                 = (Inl (ValueError ''Unable to reduce image size within 5 attempts''),
                    map (g im w h f) [Suc a..<Suc a + n])"
        have "encode_attempts L im w h f [a..<a + Suc n]
            = (Inl (ValueError ''Unable to reduce image size within 5 attempts''),
               map (g im w h f) [a..<a + Suc n])"
          using step[OF res] by simp
        with ext[OF before] show ?thesis
          by (intro disjI2 disjI1) simp
      next
        fix k m
        assume k: "Suc a \<le> k" "k < Suc a + n" "buffered L im w h f k = Inl m"
          and before: "\<forall>j. Suc a \<le> j \<and> j < k \<longrightarrow> big im w h f j"
          and res: "encode_attempts L im w h f [Suc a..<Suc a + n]
                 = (Inl (LibraryError m), map (g im w h f) [Suc a..<k])"
        have "encode_attempts L im w h f [a..<a + Suc n]
            = (Inl (LibraryError m), map (g im w h f) [a..<k])"
          using step[OF res] k(1) by simp
        with k ext[OF before] show ?thesis
          by (intro disjI2 exI[of _ k] exI[of _ m]) simp
      qed
    qed
  qed
qed

text \<open>The length of a base64 text: four characters for every three bytes, rounded up.\<close>

lemma rfc4648_b64encode_length:
  "length (rfc4648_b64encode bytes) = 4 * ((length bytes + 2) div 3)"
proof (induction bytes rule: rfc4648_b64encode.induct)
  case (4 a b c rest)
  have "(length (a # b # c # rest) + 2) div 3 = Suc ((length rest + 2) div 3)"
    by simp
  with 4 show ?case by (simp add: Let_def)
qed (simp_all add: Let_def)

text \<open>
  Claim C1, as the code has it. Let \<open>w\<close> and \<open>h\<close> be the width and height of the
  source image, \<open>im\<close> the image itself, or its conversion to RGB when its mode is
  \<open>RGBA\<close>, and \<open>jpeg im k\<close> the outcome of resizing \<open>im\<close> to \<open>int(w * factor ** k)\<close>
  by \<open>int(h * factor ** k)\<close> and saving it as JPEG. For every image, factor and library,
  \<open>process_and_encode_image\<close> ends in one of these ways.

  \<^item> Some attempt \<open>k < 5\<close> wrote a JPEG of strictly fewer than \<open>MAX_SIZE\<close> = 20 MiB
    bytes, every attempt before it wrote a JPEG of at least \<open>MAX_SIZE\<close> bytes, exactly
    those \<open>k\<close> attempts were reported as too large, and the function returns the base64
    text of the JPEG of attempt \<open>k\<close>. The ceiling bounds the bytes of the JPEG: the text
    returned has \<open>4 * ((n + 2) div 3)\<close> characters for a JPEG of \<open>n\<close> bytes when
    \<open>b64encode\<close> is the encoding of RFC 4648.
  \<^item> All five attempts wrote a JPEG of at least \<open>MAX_SIZE\<close> bytes, five notices were
    printed, and the function raises \<open>ValueError\<close>.
  \<^item> The conversion to RGB, or the resizing or saving of some attempt \<open>k < 5\<close> after
    \<open>k\<close> attempts that were too large, raises an exception, and that exception leaves the
    function.
\<close>

theorem encoder_first_jpeg_below_ceiling:
  fixes L :: "('img, 'f) imaging" and img :: 'img and resize_factor :: 'f
  defines "w \<equiv> fst (image_size L img)" and "h \<equiv> snd (image_size L img)"
  defines "jpeg \<equiv> \<lambda>im k. resize_save_jpeg L im
      (float_to_int L (int_times_float L w (float_pow L resize_factor k)))
      (float_to_int L (int_times_float L h (float_pow L resize_factor k)))"
  defines "too_large \<equiv> \<lambda>im k. \<forall>j<k. \<exists>c. jpeg im j = Inr c \<and> MAX_SIZE \<le> length c"
  defines "notices \<equiv> \<lambda>im k. map (\<lambda>j. (j + 1, tell (jpeg im j))) [0..<k]"
  defines "result \<equiv> process_and_encode_image L img resize_factor"
  shows "MAX_SIZE = 20 * 1024 * 1024
    \<and> (\<forall>m. image_is_rgba L img \<and> convert_rgb L img = Inl m
          \<longrightarrow> result = (Inl (LibraryError m), []))
    \<and> (\<forall>im. (if image_is_rgba L img then convert_rgb L img else Inr img) = Inr im \<longrightarrow>
          (\<exists>k<5. \<exists>b. jpeg im k = Inr b \<and> length b < MAX_SIZE \<and> too_large im k
              \<and> result = (Inr (b64encode L b), notices im k)
              \<and> (b64encode L = rfc4648_b64encode
                   \<longrightarrow> length (b64encode L b) = 4 * ((length b + 2) div 3)))
        \<or> (too_large im 5
              \<and> result = (Inl (ValueError ''Unable to reduce image size within 5 attempts''),
                          notices im 5))
        \<or> (\<exists>k<5. \<exists>m. jpeg im k = Inl m \<and> too_large im k
              \<and> result = (Inl (LibraryError m), notices im k)))"
proof (intro conjI allI impI)
  show "MAX_SIZE = 20 * 1024 * 1024" by (simp add: MAX_SIZE_def)
next
  fix m
  assume "image_is_rgba L img \<and> convert_rgb L img = Inl m"
  then show "result = (Inl (LibraryError m), [])"
    by (simp add: result_def process_and_encode_image_def rgb_image_def split: prod.splits)
next
  fix im
  assume im: "(if image_is_rgba L img then convert_rgb L img else Inr img) = Inr im"
  have jpeg: "jpeg im = buffered L im w h resize_factor"
    by (simp add: jpeg_def buffered_def new_width_def new_height_def fun_eq_iff)
  have run: "result = encode_attempts L im w h resize_factor [0..<0 + 5]"
    using im by (simp add: result_def process_and_encode_image_def rgb_image_def w_def h_def
        split: prod.splits)
  show "(\<exists>k<5. \<exists>b. jpeg im k = Inr b \<and> length b < MAX_SIZE \<and> too_large im k
              \<and> result = (Inr (b64encode L b), notices im k)
              \<and> (b64encode L = rfc4648_b64encode
                   \<longrightarrow> length (b64encode L b) = 4 * ((length b + 2) div 3)))
        \<or> (too_large im 5
              \<and> result = (Inl (ValueError ''Unable to reduce image size within 5 attempts''),
                          notices im 5))
        \<or> (\<exists>k<5. \<exists>m. jpeg im k = Inl m \<and> too_large im k
              \<and> result = (Inl (LibraryError m), notices im k))"
    using encode_attempts_upt[of 0 5 L im w h resize_factor]
    unfolding run jpeg too_large_def notices_def
    by (auto simp: rfc4648_b64encode_length)
qed

text \<open>
  With one byte for every pixel, an image of 6000 by 4000 pixels is too large at full size
  (24000000 bytes) and is returned at 5400 by 3600 pixels: a JPEG of 19440000 bytes, below
  the ceiling, whose base64 text has 25920000 characters.
\<close>

theorem encoder_first_jpeg_below_ceiling_witness:
  "process_and_encode_image byte_per_pixel_imaging (6000, 4000) (9, 10)
     = (Inr (rfc4648_b64encode (replicate 19440000 0)), [(1, 24000000)])
   \<and> length (rfc4648_b64encode (replicate 19440000 0)) = 25920000
   \<and> process_and_encode_image sample_imaging (250, 200) (9, 10)
     = (Inr (replicate 32724 CHR ''A''), [(1, MAX_SIZE + 50000), (2, MAX_SIZE + 40500)])"
  using encoder_first_jpeg_below_ceiling[of byte_per_pixel_imaging "(6000, 4000)" "(9, 10)"]
  by (simp add: process_and_encode_image_def rgb_image_def sample_imaging_def buffered_def
      new_width_def new_height_def upt_rec Let_def byte_per_pixel_imaging_def MAX_SIZE_def
      tell_def rfc4648_b64encode_length)

text \<open>
  The claim as it was stated promises an output within the ceiling, or an error after
  exactly five attempts, for every image. With one byte for every pixel, an image of 5000
  by 4000 pixels is returned at the first attempt, its JPEG of 20000000 bytes being below
  the ceiling of 20971520, as a text of 26666668 characters, which is above it. And an
  image that \<open>save\<close> refuses ends the function at the first attempt with the exception
  of the library, not after five attempts.
\<close>

theorem encoded_text_above_ceiling:
  "process_and_encode_image byte_per_pixel_imaging (5000, 4000) (9, 10)
     = (Inr (rfc4648_b64encode (replicate 20000000 0)), [])
   \<and> length (rfc4648_b64encode (replicate 20000000 0)) = 26666668
   \<and> MAX_SIZE < 26666668
   \<and> process_and_encode_image palette_imaging (250, 200) (9, 10)
     = (Inl (LibraryError ''cannot write mode P as JPEG''), [])"
  by (simp add: process_and_encode_image_def rgb_image_def sample_imaging_def buffered_def
      new_width_def new_height_def upt_rec Let_def byte_per_pixel_imaging_def
      palette_imaging_def MAX_SIZE_def rfc4648_b64encode_length)
section \<open>Properties of the retry loop\<close>

lemma run_attempts_Cons:
  "run_attempts body P prompt temp (a # as) imgs w =
     (let req = \<lparr>req_prompt = prompt, req_images = imgs, req_temperature = temp\<rparr>;
          out = fst (P w req); w1 = snd (P w req)
      in case body a imgs out of
           Return r \<Rightarrow> (Inr (Some r), [(req, out)], w1)
         | Propagate e \<Rightarrow> (Inl e, [(req, out)], w1)
         | Continue images \<Rightarrow>
             (fst (run_attempts body P prompt temp as images w1),
              (req, out) # fst (snd (run_attempts body P prompt temp as images w1)),
              snd (snd (run_attempts body P prompt temp as images w1))))"
  by (simp add: Let_def split: prod.splits flow.splits)

declare run_attempts.simps(2) [simp del]

lemma run_attempts_length:
  "length (fst (snd (run_attempts body P prompt temp as imgs w))) \<le> length as"
  by (induction as arbitrary: imgs w)
     (simp_all add: run_attempts_Cons Let_def split: flow.splits)

lemma run_attempts_nonempty:
  "as \<noteq> [] \<Longrightarrow> fst (snd (run_attempts body P prompt temp as imgs w)) \<noteq> []"
  by (cases as) (simp_all add: run_attempts_Cons Let_def split: flow.splits)

lemma run_attempts_requests:
  "(req, out) \<in> set (fst (snd (run_attempts body P prompt temp as imgs w)))
     \<Longrightarrow> req_prompt req = prompt \<and> req_temperature req = temp"
  by (induction as arbitrary: imgs w)
     (auto simp: run_attempts_Cons Let_def split: flow.splits)

lemma run_attempts_first:
  "as \<noteq> [] \<Longrightarrow> req_images (fst (hd (fst (snd (run_attempts body P prompt temp as imgs w))))) = imgs"
  by (cases as) (simp_all add: run_attempts_Cons Let_def split: flow.splits)

lemma run_attempts_chain:
  "Suc i < length (fst (snd (run_attempts body P prompt temp as imgs w))) \<Longrightarrow>
     body (as ! i)
        (req_images (fst (fst (snd (run_attempts body P prompt temp as imgs w)) ! i)))
        (snd (fst (snd (run_attempts body P prompt temp as imgs w)) ! i))
      = Continue (req_images (fst (fst (snd (run_attempts body P prompt temp as imgs w)) ! Suc i)))"
proof (induction as arbitrary: imgs w i)
  case Nil
  then show ?case by simp
next
  case (Cons a as)
  let ?req = "\<lparr>req_prompt = prompt, req_images = imgs, req_temperature = temp\<rparr>"
  let ?out = "fst (P w ?req)"
  let ?w1 = "snd (P w ?req)"
  show ?case
  proof (cases "body a imgs ?out")
    case (Continue images)
    let ?rest = "fst (snd (run_attempts body P prompt temp as images ?w1))"
    have calls: "fst (snd (run_attempts body P prompt temp (a # as) imgs w)) = (?req, ?out) # ?rest"
      by (simp add: run_attempts_Cons Let_def Continue)
    show ?thesis
    proof (cases i)
      case 0
      have "?rest \<noteq> []" using Cons.prems calls 0 by auto
      then have "as \<noteq> []" by (cases as) auto
      then have "req_images (fst (hd ?rest)) = images" by (rule run_attempts_first)
      with \<open>?rest \<noteq> []\<close> have "req_images (fst (?rest ! 0)) = images"
        by (simp add: hd_conv_nth)
      then show ?thesis using 0 calls Continue by simp
    next
      case (Suc j)
      then have "Suc j < length ?rest" using Cons.prems calls by simp
      from Cons.IH[OF this] show ?thesis using Suc calls by simp
    qed
  next
    case (Return r)
    then show ?thesis using Cons.prems by (simp add: run_attempts_Cons Let_def)
  next
    case (Propagate e)
    then show ?thesis using Cons.prems by (simp add: run_attempts_Cons Let_def)
  qed
qed

text \<open>What the last call decided is the result of the loop.\<close>

lemma run_attempts_last:
  fixes body :: "nat \<Rightarrow> string list \<Rightarrow> 'c outcome \<Rightarrow> 'r flow"
    and P :: "('t, 'c, 'w) provider" and prompt temp as imgs w
  assumes "as \<noteq> []"
  defines "r \<equiv> run_attempts body P prompt temp as imgs w"
  defines "n \<equiv> length (fst (snd r)) - 1"
  shows "(case body (as ! n) (req_images (fst (fst (snd r) ! n))) (snd (fst (snd r) ! n)) of
            Return x \<Rightarrow> fst r = Inr (Some x)
          | Propagate e \<Rightarrow> fst r = Inl e
          | Continue images \<Rightarrow> fst r = Inr None \<and> length (fst (snd r)) = length as)"
  using assms(1) unfolding r_def n_def
proof (induction as arbitrary: imgs w)
  case Nil
  then show ?case by simp
next
  case (Cons a as)
  let ?req = "\<lparr>req_prompt = prompt, req_images = imgs, req_temperature = temp\<rparr>"
  let ?out = "fst (P w ?req)"
  let ?w1 = "snd (P w ?req)"
  show ?case
  proof (cases "body a imgs ?out")
    case (Continue images)
    let ?r = "run_attempts body P prompt temp as images ?w1"
    have calls: "fst (snd (run_attempts body P prompt temp (a # as) imgs w)) = (?req, ?out) # fst (snd ?r)"
      and res: "fst (run_attempts body P prompt temp (a # as) imgs w) = fst ?r"
      by (simp_all add: run_attempts_Cons Let_def Continue)
    show ?thesis
    proof (cases as)
      case Nil
      then show ?thesis using Continue by (simp add: run_attempts_Cons Let_def)
    next
      case (Cons b bs)
      then have ne: "as \<noteq> []" by simp
      have nonempty: "fst (snd ?r) \<noteq> []" using ne by (rule run_attempts_nonempty)
      then obtain m where m: "length (fst (snd ?r)) = Suc m" by (cases "fst (snd ?r)") auto
      from Cons.IH[OF ne, of images ?w1] show ?thesis
        unfolding calls res using m by (simp split: flow.splits)
    qed
  next
    case (Return x)
    then show ?thesis by (simp add: run_attempts_Cons Let_def)
  next
    case (Propagate e)
    then show ?thesis by (simp add: run_attempts_Cons Let_def)
  qed
qed

text \<open>The loop of a client, which runs over \<open>range(max_attempts)\<close>.\<close>

lemma attempts_length:
  assumes "run_attempts body P prompt temp [0..<max_attempts] imgs w = (res, calls, w')"
  shows "length calls \<le> max_attempts" "calls \<noteq> []"
proof -
  show "length calls \<le> max_attempts"
    using run_attempts_length[of body P prompt temp "[0..<max_attempts]" imgs w] assms by simp
  have "[0..<max_attempts] \<noteq> []" by (simp add: max_attempts_def)
  from run_attempts_nonempty[OF this, of body P prompt temp imgs w] assms
  show "calls \<noteq> []" by simp
qed

lemma attempts_requests:
  assumes "run_attempts body P prompt temp [0..<max_attempts] imgs w = (res, calls, w')"
    and "i < length calls"
  shows "req_prompt (fst (calls ! i)) = prompt \<and> req_temperature (fst (calls ! i)) = temp"
proof -
  have "(fst (calls ! i), snd (calls ! i)) \<in> set calls" using assms(2) by simp
  with run_attempts_requests[of "fst (calls ! i)" "snd (calls ! i)" body P prompt temp
      "[0..<max_attempts]" imgs w] assms(1)
  show ?thesis by simp
qed

lemma attempts_first:
  assumes "run_attempts body P prompt temp [0..<max_attempts] imgs w = (res, calls, w')"
  shows "req_images (fst (calls ! 0)) = imgs"
proof -
  have ne: "[0..<max_attempts] \<noteq> []" by (simp add: max_attempts_def)
  have "calls \<noteq> []" using attempts_length(2)[OF assms] .
  with run_attempts_first[OF ne, of body P prompt temp imgs w] assms
  show ?thesis by (simp add: hd_conv_nth)
qed

lemma attempts_chain:
  assumes "run_attempts body P prompt temp [0..<max_attempts] imgs w = (res, calls, w')"
    and "Suc i < length calls"
  shows "body i (req_images (fst (calls ! i))) (snd (calls ! i))
           = Continue (req_images (fst (calls ! Suc i)))"
proof -
  have "i < max_attempts" using attempts_length(1)[OF assms(1)] assms(2) by simp
  then have "[0..<max_attempts] ! i = i" by simp
  with run_attempts_chain[of i body P prompt temp "[0..<max_attempts]" imgs w] assms
  show ?thesis by simp
qed

lemma attempts_last:
  assumes "run_attempts body P prompt temp [0..<max_attempts] imgs w = (res, calls, w')"
    and "Suc i = length calls"
  shows "case body i (req_images (fst (calls ! i))) (snd (calls ! i)) of
           Return x \<Rightarrow> res = Inr (Some x)
         | Propagate e \<Rightarrow> res = Inl e
         | Continue images \<Rightarrow> res = Inr None \<and> length calls = max_attempts"
proof -
  have ne: "[0..<max_attempts] \<noteq> []" by (simp add: max_attempts_def)
  have "i < max_attempts" using attempts_length(1)[OF assms(1)] assms(2) by simp
  then have nth: "[0..<max_attempts] ! i = i" by simp
  have i: "length calls - 1 = i" using assms(2) by simp
  from run_attempts_last[OF ne, of body P prompt temp imgs w] assms(1) nth i
  show ?thesis by (simp split: flow.splits)
qed

text \<open>
  A loop returns no result only when all \<open>max_attempts\<close> calls were made and each was
  retried.
\<close>

lemma attempts_none:
  assumes run: "run_attempts body P prompt temp [0..<max_attempts] imgs w = (res, calls, w')"
    and none: "res = Inr None"
    and cont: "\<And>a im out im'. body a im out = Continue im' \<Longrightarrow> \<not> good out"
  shows "length calls = max_attempts \<and> (\<forall>i<length calls. \<not> good (snd (calls ! i)))"
proof -
  obtain n where n: "Suc n = length calls"
    using attempts_length(2)[OF run] by (cases calls) auto
  from attempts_last[OF run n] none
  have last: "\<exists>im'. body n (req_images (fst (calls ! n))) (snd (calls ! n)) = Continue im'"
    and full: "length calls = max_attempts"
    by (auto split: flow.splits)
  have "\<not> good (snd (calls ! i))" if "i < length calls" for i
  proof (cases "Suc i < length calls")
    case True
    from attempts_chain[OF run True] show ?thesis by (rule cont)
  next
    case False
    then have "i = n" using that n by simp
    with last show ?thesis by (auto dest: cont)
  qed
  with full show ?thesis by simp
qed


text \<open>
  What follows a call is fixed by what the body makes of its outcome: a \<open>Continue\<close> is
  followed by another call with the images it carries, unless the call was the last of
  the range, and then the loop returns \<open>None\<close>; a \<open>Propagate\<close> ends the loop with the
  exception.
\<close>

lemma attempts_continue:
  assumes run: "run_attempts body P prompt temp [0..<max_attempts] imgs w = (res, calls, w')"
    and i: "i < length calls"
    and body: "body i (req_images (fst (calls ! i))) (snd (calls ! i)) = Continue images"
  shows "if Suc i < max_attempts
         then Suc i < length calls \<and> req_images (fst (calls ! Suc i)) = images
         else Suc i = length calls \<and> res = Inr None"
proof (cases "Suc i < length calls")
  case True
  from attempts_chain[OF run True] body
  have "req_images (fst (calls ! Suc i)) = images" by simp
  with True attempts_length(1)[OF run] show ?thesis by simp
next
  case False
  then have n: "Suc i = length calls" using i by simp
  from attempts_last[OF run n] body n show ?thesis by simp
qed

lemma attempts_propagate:
  assumes run: "run_attempts body P prompt temp [0..<max_attempts] imgs w = (res, calls, w')"
    and i: "i < length calls"
    and body: "body i (req_images (fst (calls ! i))) (snd (calls ! i)) = Propagate err"
  shows "Suc i = length calls \<and> res = Inl err"
proof (cases "Suc i < length calls")
  case True
  from attempts_chain[OF run True] body show ?thesis by simp
next
  case False
  then have n: "Suc i = length calls" using i by simp
  from attempts_last[OF run n] body n show ?thesis by simp
qed
section \<open>Properties of the three loop bodies\<close>

lemma startswith_shorter:
  "startswith s p \<Longrightarrow> q = take (length q) p \<Longrightarrow> length q \<le> length p \<Longrightarrow> startswith s q"
  unfolding startswith_def
  by (metis min.absorb2 take_take length_take min.absorb1)

lemma refusal_cannot:
  "startswith s ''I'm sorry, but I cannot'' \<Longrightarrow> startswith s refusal_prefix"
  by (erule startswith_shorter) (simp_all add: refusal_prefix_def)

lemma resize_images_no_exit: "resize_images L f xs \<noteq> Inl SystemExit"
proof (induction xs)
  case Nil
  show ?case by simp
next
  case (Cons x xs)
  have enc: "fst (encode_attempts L im w h f as) \<noteq> Inl SystemExit" for im w h as
    by (induction as) (auto simp: Let_def split: prod.splits sum.splits)
  have "fst (process_and_encode_image L im f) \<noteq> Inl SystemExit" for im
    by (simp add: process_and_encode_image_def enc split: prod.splits sum.splits)
  with Cons show ?case
    by (auto split: sum.splits)
qed

subsection \<open>GPT-4o\<close>

lemma gpt4_body_Return:
  "gpt4_body L a imgs out = Return x \<longleftrightarrow> out = Reply x \<and> \<not> startswith x refusal_prefix"
  by (auto simp: gpt4_body_def split: outcome.splits sum.splits)

lemma gpt4_body_Reply_Continue:
  "gpt4_body L a imgs (Reply c) = Continue imgs' \<longleftrightarrow> startswith c refusal_prefix \<and> imgs' = imgs"
  by (auto simp: gpt4_body_def)

lemma gpt4_body_Raise_Continue:
  "gpt4_body L a imgs (Raise e) = Continue imgs' \<longleftrightarrow>
     (if contains ''image_parse_error'' (lower e) \<and> a < max_attempts - 1
      then resize_images L (factor_0_9 L) imgs = Inr imgs' else imgs' = imgs)"
  by (auto simp: gpt4_body_def split: sum.splits)

lemma gpt4_body_Raise:
  "gpt4_body L a imgs (Raise e) =
     (if contains ''image_parse_error'' (lower e) \<and> Suc a < max_attempts
      then (case resize_images L (factor_0_9 L) imgs of
              Inl err \<Rightarrow> Propagate err | Inr images \<Rightarrow> Continue images)
      else Continue imgs)"
proof -
  have "a < max_attempts - 1 \<longleftrightarrow> Suc a < max_attempts" by (simp add: max_attempts_def)
  then show ?thesis unfolding gpt4_body_def by simp
qed

lemma gpt4_body_Propagate:
  "gpt4_body L a imgs out = Propagate err \<Longrightarrow> a < max_attempts - 1 \<and> err \<noteq> SystemExit"
  using resize_images_no_exit[of L "factor_0_9 L" imgs]
  by (auto simp: gpt4_body_def split: outcome.splits sum.splits if_splits)

lemma gpt4_body_Continue_not_qualifying:
  "gpt4_body L a imgs out = Continue imgs' \<Longrightarrow> \<not> gpt4_qualifying out"
  by (auto simp: gpt4_body_def gpt4_qualifying_def split: outcome.splits sum.splits if_splits)

subsection \<open>Gemini\<close>

lemma gemini_handler_cases:
  "gemini_handler L a imgs e = Propagate err \<Longrightarrow> a < max_attempts - 1"
  "gemini_handler L a imgs e \<noteq> Return x"
  by (auto simp: gemini_handler_def split: sum.splits if_splits)

lemma gemini_body_Return:
  "gemini_body L a imgs out = Return x \<longleftrightarrow> out = Reply x \<and> \<not> is_short_str x"
  by (auto simp: gemini_body_def gemini_handler_cases split: outcome.splits sum.splits)

lemma gemini_body_Propagate:
  "gemini_body L a imgs out = Propagate err \<Longrightarrow> a < max_attempts - 1"
  by (auto simp: gemini_body_def split: outcome.splits sum.splits if_splits
      dest: gemini_handler_cases(1))

lemma gemini_body_Continue_not_qualifying:
  "gemini_body L a imgs out = Continue imgs' \<Longrightarrow> \<not> gemini_qualifying out"
  by (auto simp: gemini_body_def gemini_qualifying_def split: outcome.splits sum.splits if_splits)

lemma gemini_body_short_resized:
  "gemini_body L a imgs (Reply c) = Continue imgs'' \<Longrightarrow>
     resize_images L (factor_0_9 L) imgs = Inr imgs' \<Longrightarrow> is_short_str c \<and> imgs'' = imgs'"
  by (auto simp: gemini_body_def split: if_splits)

subsection \<open>Claude\<close>

lemma claude_body_Return:
  "claude_body L a imgs out = Return x \<longleftrightarrow> out = Reply x \<and> \<not> startswith x refusal_prefix"
  by (auto simp: claude_body_def split: outcome.splits sum.splits)

lemma claude_body_Reply_Continue:
  "claude_body L a imgs (Reply c) = Continue imgs' \<longleftrightarrow> startswith c refusal_prefix \<and> imgs' = imgs"
  by (auto simp: claude_body_def)

lemma claude_body_Raise_Continue:
  "claude_body L a imgs (Raise e) = Continue imgs' \<longleftrightarrow>
     \<not> contains ''exceeded'' (lower e) \<and>
     (if contains ''image_parse_error'' (lower e) \<and> a < max_attempts - 1
      then resize_images L (factor_0_9 L) imgs = Inr imgs' else imgs' = imgs)"
  by (auto simp: claude_body_def split: sum.splits)

lemma claude_body_Raise:
  "\<not> contains ''exceeded'' (lower e) \<Longrightarrow>
   claude_body L a imgs (Raise e) =
     (if contains ''image_parse_error'' (lower e) \<and> Suc a < max_attempts
      then (case resize_images L (factor_0_9 L) imgs of
              Inl err \<Rightarrow> Propagate err | Inr images \<Rightarrow> Continue images)
      else Continue imgs)"
proof -
  assume "\<not> contains ''exceeded'' (lower e)"
  moreover have "a < max_attempts - 1 \<longleftrightarrow> Suc a < max_attempts"
    by (simp add: max_attempts_def)
  ultimately show ?thesis unfolding claude_body_def by simp
qed

lemma claude_body_exit:
  "claude_body L a imgs out = Propagate SystemExit \<longleftrightarrow> claude_fatal out"
  using resize_images_no_exit[of L "factor_0_9 L" imgs]
  by (auto simp: claude_body_def claude_fatal_def split: outcome.splits sum.splits)

lemma claude_body_Propagate:
  "claude_body L a imgs out = Propagate err \<Longrightarrow> claude_fatal out \<or> a < max_attempts - 1"
  by (auto simp: claude_body_def claude_fatal_def split: outcome.splits sum.splits if_splits)

lemma claude_body_Continue_not_qualifying:
  "claude_body L a imgs out = Continue imgs' \<Longrightarrow> \<not> gpt4_qualifying out \<and> \<not> claude_fatal out"
  by (auto simp: claude_body_def gpt4_qualifying_def claude_fatal_def
      split: outcome.splits sum.splits if_splits)

subsection \<open>The safety branch of the Gemini client\<close>

text \<open>
  The \<open>except\<close> clause of the Gemini client looks for the upper-case marker \<open>SAFETY\<close> in
  a message it has lower-cased first. No lower-cased message contains it, so that branch
  is never taken: after an exception the Gemini client retries with the images as they
  were.
\<close>

lemma contains_set: "contains sub s \<Longrightarrow> set sub \<subseteq> set s"
proof (induction s)
  case Nil
  then show ?case by simp
next
  case (Cons c cs)
  from Cons.prems have "startswith (c # cs) sub \<or> contains sub cs" by simp
  then show ?case
  proof
    assume "startswith (c # cs) sub"
    then have "sub = take (length sub) (c # cs)" by (simp add: startswith_def)
    then have "set sub \<subseteq> set (c # cs)" by (metis set_take_subset)
    then show ?thesis .
  next
    assume "contains sub cs"
    with Cons.IH show ?thesis by auto
  qed
qed

lemma lower_char_not_S: "lower_char c \<noteq> CHR ''S''"
proof (cases "map_of (zip ''ABCDEFGHIJKLMNOPQRSTUVWXYZ'' ''abcdefghijklmnopqrstuvwxyz'') c")
  case None
  then have "c \<noteq> CHR ''S''" by (auto simp: map_of_eq_None_iff)
  with None show ?thesis by (simp add: lower_char_def)
next
  case (Some l)
  then have "(c, l) \<in> set (zip ''ABCDEFGHIJKLMNOPQRSTUVWXYZ'' ''abcdefghijklmnopqrstuvwxyz'')"
    by (rule map_of_SomeD)
  then have "l \<noteq> CHR ''S''" by auto
  with Some show ?thesis by (simp add: lower_char_def)
qed

lemma safety_marker_never_found: "\<not> contains ''SAFETY'' (lower e)"
proof
  assume "contains ''SAFETY'' (lower e)"
  then have "CHR ''S'' \<in> set (lower e)" using contains_set by fastforce
  then obtain c where "lower_char c = CHR ''S''" by (auto simp: lower_def)
  then show False by (simp add: lower_char_not_S)
qed

lemma gemini_handler_keeps_images: "gemini_handler L attempt encoded_images e = Continue encoded_images"
  by (simp add: gemini_handler_def safety_marker_never_found)

section \<open>Evaluation on the concrete library\<close>

lemmas encoder_eval = sample_imaging_def process_and_encode_image_def rgb_image_def
  buffered_def new_width_def new_height_def upt_rec Let_def MAX_SIZE_def

lemmas string_eval = startswith_def refusal_prefix_def lower_def lower_char_def

lemmas client_eval = analyze_images_with_gpt4_vision_def analyze_images_with_gemini_vision_def
  analyze_images_with_claude_vision_def max_attempts_def run_attempts.simps(2)
  gpt4_body_def gemini_body_def gemini_handler_def claude_body_def scripted_def upt_rec

lemmas runner_eval = sample_env_def sample_state_def temperatures_def result_file_path_def
  folder_name_def base_result_folder_def image_file_name_def path_join_def replace_char_def
  str_nat.simps digit_char_def startswith_def

section \<open>Exhaustion of the attempts\<close>

text \<open>
  Claim C5. No client makes more than \<open>max_attempts\<close> = 10 calls. When the GPT-4o or
  the Gemini client has made all ten calls and none of the outcomes qualifies as a
  response to return (for GPT-4o: every outcome is an exception or a text that starts
  with the refusal prefix; for Gemini: every outcome is an exception or a string of fewer
  than ten characters), the client returns \<open>None\<close>: no exception leaves the call.
  Conversely \<open>None\<close> is returned only in that situation. The same holds for the Claude
  client when, in addition, none of the ten outcomes is an exception that signals an
  exceeded quota.
\<close>

theorem exhausted_client_returns_none:
  assumes gpt: "analyze_images_with_gpt4_vision L P prompt imgs temp w = (res, calls, w')"
    and gem: "analyze_images_with_gemini_vision L Pg prompt imgs temp wg = (resg, callsg, wg')"
    and cla: "fst (analyze_images_with_claude_vision L P df prompt imgs temp w disk)
                = (resc, callsc, wc')"
  shows "max_attempts = 10
    \<and> length calls \<le> max_attempts
    \<and> (length calls = max_attempts \<and> (\<forall>c\<in>set calls. \<not> gpt4_qualifying (snd c))
          \<longrightarrow> res = Inr None)
    \<and> (res = Inr None
          \<longrightarrow> length calls = max_attempts \<and> (\<forall>c\<in>set calls. \<not> gpt4_qualifying (snd c)))
    \<and> length callsg \<le> max_attempts
    \<and> (length callsg = max_attempts \<and> (\<forall>c\<in>set callsg. \<not> gemini_qualifying (snd c))
          \<longrightarrow> resg = Inr None)
    \<and> (resg = Inr None
          \<longrightarrow> length callsg = max_attempts
              \<and> (\<forall>c\<in>set callsg. \<not> gemini_qualifying (snd c)))
    \<and> length callsc \<le> max_attempts
    \<and> (length callsc = max_attempts
          \<and> (\<forall>c\<in>set callsc. \<not> gpt4_qualifying (snd c) \<and> \<not> claude_fatal (snd c))
          \<longrightarrow> resc = Inr None)
    \<and> (resc = Inr None
          \<longrightarrow> length callsc = max_attempts
              \<and> (\<forall>c\<in>set callsc. \<not> gpt4_qualifying (snd c) \<and> \<not> claude_fatal (snd c)))"
proof -
  have rg: "run_attempts (gpt4_body L) P prompt temp [0..<max_attempts] imgs w = (res, calls, w')"
    using gpt by (simp add: analyze_images_with_gpt4_vision_def)
  have rm: "run_attempts (gemini_body L) Pg prompt temp [0..<max_attempts] imgs wg
      = (resg, callsg, wg')"
    using gem by (simp add: analyze_images_with_gemini_vision_def)
  have rc: "run_attempts (claude_body L) P prompt temp [0..<max_attempts] imgs w
      = (resc, callsc, wc')"
    using cla by (simp add: analyze_images_with_claude_vision_def split: prod.splits)
  have last: "Suc (max_attempts - 1) = max_attempts" by (simp add: max_attempts_def)
  have g1: "res = Inr None"
    if "length calls = max_attempts" "\<forall>c\<in>set calls. \<not> gpt4_qualifying (snd c)"
  proof -
    have bad: "\<not> gpt4_qualifying (snd (calls ! (max_attempts - 1)))"
      using that by (simp add: max_attempts_def)
    have n: "Suc (max_attempts - 1) = length calls" using that(1) last by simp
    from attempts_last[OF rg n] bad show ?thesis
      by (auto split: flow.splits simp: gpt4_body_Return gpt4_qualifying_def
          dest: gpt4_body_Propagate)
  qed
  have g2: "length calls = max_attempts \<and> (\<forall>c\<in>set calls. \<not> gpt4_qualifying (snd c))"
    if "res = Inr None"
    using attempts_none[OF rg that, of gpt4_qualifying] gpt4_body_Continue_not_qualifying
    by (simp add: all_set_conv_all_nth) blast
  have m1: "resg = Inr None"
    if "length callsg = max_attempts" "\<forall>c\<in>set callsg. \<not> gemini_qualifying (snd c)"
  proof -
    have bad: "\<not> gemini_qualifying (snd (callsg ! (max_attempts - 1)))"
      using that by (simp add: max_attempts_def)
    have n: "Suc (max_attempts - 1) = length callsg" using that(1) last by simp
    from attempts_last[OF rm n] bad show ?thesis
      by (auto split: flow.splits simp: gemini_body_Return gemini_qualifying_def
          dest: gemini_body_Propagate)
  qed
  have m2: "length callsg = max_attempts
      \<and> (\<forall>c\<in>set callsg. \<not> gemini_qualifying (snd c))"
    if "resg = Inr None"
    using attempts_none[OF rm that, of gemini_qualifying] gemini_body_Continue_not_qualifying
    by (simp add: all_set_conv_all_nth) blast
  have c1: "resc = Inr None"
    if "length callsc = max_attempts"
      "\<forall>c\<in>set callsc. \<not> gpt4_qualifying (snd c) \<and> \<not> claude_fatal (snd c)"
  proof -
    have bad: "\<not> gpt4_qualifying (snd (callsc ! (max_attempts - 1)))"
      "\<not> claude_fatal (snd (callsc ! (max_attempts - 1)))"
      using that by (simp_all add: max_attempts_def)
    have n: "Suc (max_attempts - 1) = length callsc" using that(1) last by simp
    from attempts_last[OF rc n] bad show ?thesis
      by (auto split: flow.splits simp: claude_body_Return gpt4_qualifying_def
          dest: claude_body_Propagate)
  qed
  have c2: "length callsc = max_attempts
      \<and> (\<forall>c\<in>set callsc. \<not> gpt4_qualifying (snd c) \<and> \<not> claude_fatal (snd c))"
    if "resc = Inr None"
    using attempts_none[OF rc that, of "\<lambda>out. gpt4_qualifying out \<or> claude_fatal out"]
      claude_body_Continue_not_qualifying
    by (simp add: all_set_conv_all_nth) blast
  show ?thesis
    using attempts_length(1)[OF rg] attempts_length(1)[OF rm] attempts_length(1)[OF rc]
      g1 g2 m1 m2 c1 c2
    by (simp add: max_attempts_def)
qed

theorem exhausted_client_returns_none_witness:
  "fst (analyze_images_with_gpt4_vision sample_imaging (scripted (Raise ''timeout'')) ''p''
          [''abc''] Temp_0 []) = Inr None
   \<and> fst (analyze_images_with_gemini_vision sample_imaging (scripted (Reply (Str ''short'')))
          ''p'' [''abc''] Temp_0 []) = Inr None
   \<and> fst (fst (analyze_images_with_claude_vision sample_imaging (scripted (Raise ''timeout''))
          ([] :: (temperature, nat) timing_row list) ''p'' [''abc''] Temp_0 [] Map.empty))
        = Inr None"
proof -
  let ?req = "\<lparr>req_prompt = ''p'', req_images = [''abc''], req_temperature = Temp_0\<rparr>"
  let ?req' = "\<lparr>req_prompt = ''p'', req_images = [replicate 3 CHR ''A''],
                req_temperature = Temp_0\<rparr>"
  let ?g = "analyze_images_with_gpt4_vision sample_imaging (scripted (Raise ''timeout'')) ''p''
      [''abc''] Temp_0 []"
  let ?m = "analyze_images_with_gemini_vision sample_imaging (scripted (Reply (Str ''short'')))
      ''p'' [''abc''] Temp_0 []"
  let ?c = "fst (analyze_images_with_claude_vision sample_imaging (scripted (Raise ''timeout''))
      ([] :: (temperature, nat) timing_row list) ''p'' [''abc''] Temp_0 [] Map.empty)"
  have g: "fst (snd ?g) = map (\<lambda>i. (?req, Raise ''timeout'')) [0..<10]"
    by (simp add: client_eval string_eval)
  have m: "fst (snd ?m)
      = (?req, Reply (Str ''short'')) # map (\<lambda>i. (?req', Reply (Str ''short''))) [1..<10]"
    by (simp add: client_eval encoder_eval)
  have c: "fst (snd ?c) = map (\<lambda>i. (?req, Raise ''timeout'')) [0..<10]"
    by (simp add: client_eval string_eval)
  have hg: "length (fst (snd ?g)) = max_attempts
      \<and> (\<forall>c\<in>set (fst (snd ?g)). \<not> gpt4_qualifying (snd c))"
    unfolding g by (simp add: max_attempts_def gpt4_qualifying_def)
  have hm: "length (fst (snd ?m)) = max_attempts
      \<and> (\<forall>c\<in>set (fst (snd ?m)). \<not> gemini_qualifying (snd c))"
    unfolding m by (simp add: max_attempts_def gemini_qualifying_def)
  have hc: "length (fst (snd ?c)) = max_attempts
      \<and> (\<forall>c\<in>set (fst (snd ?c)). \<not> gpt4_qualifying (snd c) \<and> \<not> claude_fatal (snd c))"
    unfolding c by (simp add: max_attempts_def gpt4_qualifying_def claude_fatal_def string_eval)
  have "?g = (fst ?g, fst (snd ?g), snd (snd ?g))" "?m = (fst ?m, fst (snd ?m), snd (snd ?m))"
    "?c = (fst ?c, fst (snd ?c), snd (snd ?c))"
    by simp_all
  from exhausted_client_returns_none[OF this] hg hm hc show ?thesis
    by blast
qed

section \<open>Refusals\<close>

lemma returned_text_not_refusal:
  assumes run: "run_attempts body P prompt temp [0..<max_attempts] imgs w = (res, calls, w')"
    and ret: "\<And>a im out x. body a im out = Return x \<Longrightarrow> \<not> startswith x refusal_prefix"
    and res: "res = Inr (Some t)"
  shows "\<not> startswith t refusal_prefix"
proof -
  obtain n where n: "Suc n = length calls"
    using attempts_length(2)[OF run] by (cases calls) auto
  from attempts_last[OF run n] res
  have "body n (req_images (fst (calls ! n))) (snd (calls ! n)) = Return t"
    by (auto split: flow.splits)
  then show ?thesis by (rule ret)
qed

lemma retried_or_exhausted:
  assumes run: "run_attempts body P prompt temp [0..<max_attempts] imgs w = (res, calls, w')"
    and cont: "\<And>a im. \<exists>im'. body a im out = Continue im'"
    and i: "i < length calls" "snd (calls ! i) = out"
  shows "Suc i < length calls \<or> (Suc i = max_attempts \<and> res = Inr None)"
proof (cases "Suc i < length calls")
  case True
  then show ?thesis by simp
next
  case False
  then have n: "Suc i = length calls" using i(1) by simp
  obtain im' where "body i (req_images (fst (calls ! i))) out = Continue im'"
    using cont by blast
  with attempts_last[OF run n] i(2) n show ?thesis by simp
qed

text \<open>
  Claim C4, as the code has it. The GPT-4o and the Claude client never return a text that
  starts with \<open>I'm sorry, but\<close>, hence none that starts with \<open>I'm sorry, but I cannot\<close>:
  after such a response the client makes another call, or, when the response was the
  tenth, returns \<open>None\<close>. The Gemini client has no such check: a string of at least ten
  characters ends the loop and is returned, whatever it starts with.
\<close>

theorem refusal_never_returned:
  assumes gpt: "analyze_images_with_gpt4_vision L P prompt imgs temp w = (res, calls, w')"
    and cla: "fst (analyze_images_with_claude_vision L P df prompt imgs temp w disk)
                = (resc, callsc, wc')"
    and gem: "analyze_images_with_gemini_vision L Pg prompt imgs temp wg = (resg, callsg, wg')"
  shows "(\<forall>t. startswith t ''I'm sorry, but'' \<longrightarrow> res \<noteq> Inr (Some t) \<and> resc \<noteq> Inr (Some t))
    \<and> (\<forall>t. startswith t ''I'm sorry, but I cannot''
          \<longrightarrow> res \<noteq> Inr (Some t) \<and> resc \<noteq> Inr (Some t))
    \<and> (\<forall>i t. i < length calls \<and> snd (calls ! i) = Reply t \<and> startswith t ''I'm sorry, but''
          \<longrightarrow> Suc i < length calls \<or> (Suc i = max_attempts \<and> res = Inr None))
    \<and> (\<forall>i t. i < length callsc \<and> snd (callsc ! i) = Reply t \<and> startswith t ''I'm sorry, but''
          \<longrightarrow> Suc i < length callsc \<or> (Suc i = max_attempts \<and> resc = Inr None))
    \<and> (\<forall>i s. i < length callsg \<and> snd (callsg ! i) = Reply (Str s) \<and> 10 \<le> length s
          \<longrightarrow> Suc i = length callsg \<and> resg = Inr (Some (Str s)))"
proof -
  have rg: "run_attempts (gpt4_body L) P prompt temp [0..<max_attempts] imgs w = (res, calls, w')"
    using gpt by (simp add: analyze_images_with_gpt4_vision_def)
  have rm: "run_attempts (gemini_body L) Pg prompt temp [0..<max_attempts] imgs wg
      = (resg, callsg, wg')"
    using gem by (simp add: analyze_images_with_gemini_vision_def)
  have rc: "run_attempts (claude_body L) P prompt temp [0..<max_attempts] imgs w
      = (resc, callsc, wc')"
    using cla by (simp add: analyze_images_with_claude_vision_def split: prod.splits)
  have pre: "refusal_prefix = ''I'm sorry, but''" by (simp add: refusal_prefix_def)
  have a: "res \<noteq> Inr (Some t) \<and> resc \<noteq> Inr (Some t)" if "startswith t refusal_prefix" for t
    using returned_text_not_refusal[OF rg, of t] returned_text_not_refusal[OF rc, of t] that
    by (auto simp: gpt4_body_Return claude_body_Return)
  have b: "Suc i < length calls \<or> (Suc i = max_attempts \<and> res = Inr None)"
    if "i < length calls" "snd (calls ! i) = Reply t" "startswith t refusal_prefix" for i t
    using retried_or_exhausted[OF rg _ that(1,2)] that(3)
    by (simp add: gpt4_body_Reply_Continue)
  have c: "Suc i < length callsc \<or> (Suc i = max_attempts \<and> resc = Inr None)"
    if "i < length callsc" "snd (callsc ! i) = Reply t" "startswith t refusal_prefix" for i t
    using retried_or_exhausted[OF rc _ that(1,2)] that(3)
    by (simp add: claude_body_Reply_Continue)
  have d: "Suc i = length callsg \<and> resg = Inr (Some (Str s))"
    if "i < length callsg" "snd (callsg ! i) = Reply (Str s)" "10 \<le> length s" for i s
  proof -
    have ret: "gemini_body L a im (Reply (Str s)) = Return (Str s)" for a im
      using that(3) by (simp add: gemini_body_Return)
    have "\<not> Suc i < length callsg"
    proof
      assume "Suc i < length callsg"
      from attempts_chain[OF rm this] that(2) ret show False by simp
    qed
    then have n: "Suc i = length callsg" using that(1) by simp
    from attempts_last[OF rm n] that(2) ret have "resg = Inr (Some (Str s))" by simp
    with n show ?thesis by simp
  qed
  show ?thesis
    using a b c d refusal_cannot unfolding pre by blast
qed

theorem refusal_never_returned_witness:
  "Suc 0 < length (fst (snd (analyze_images_with_gpt4_vision sample_imaging
        (scripted (Raise ''unused'')) ''p'' [''abc''] Temp_0
        [Reply ''I'm sorry, but I cannot help with that.'', Reply ''CT''])))
   \<and> fst (analyze_images_with_gpt4_vision sample_imaging
        (scripted (Raise ''unused'')) ''p'' [''abc''] Temp_0
        [Reply ''I'm sorry, but I cannot help with that.'', Reply ''CT''])
      \<noteq> Inr (Some ''I'm sorry, but I cannot help with that.'')
   \<and> fst (analyze_images_with_gemini_vision sample_imaging (scripted (Raise ''unused'')) ''p''
          [''abc''] Temp_0 [Reply (Str ''I'm sorry, but I cannot help with that.'')])
      = Inr (Some (Str ''I'm sorry, but I cannot help with that.''))"
proof -
  let ?t = "''I'm sorry, but I cannot help with that.''"
  let ?g = "analyze_images_with_gpt4_vision sample_imaging
        (scripted (Raise ''unused'')) ''p'' [''abc''] Temp_0 [Reply ?t, Reply ''CT'']"
  let ?c = "fst (analyze_images_with_claude_vision sample_imaging
        (scripted (Raise ''unused'')) ([] :: (temperature, nat) timing_row list) ''p'' [''abc'']
        Temp_0 [Reply ?t, Reply ''CT''] Map.empty)"
  let ?m = "analyze_images_with_gemini_vision sample_imaging (scripted (Raise ''unused'')) ''p''
          [''abc''] Temp_0 [Reply (Str ?t)]"
  have g0: "0 < length (fst (snd ?g)) \<and> snd (fst (snd ?g) ! 0) = Reply ?t"
    by (simp add: client_eval string_eval)
  have m0: "0 < length (fst (snd ?m)) \<and> snd (fst (snd ?m) ! 0) = Reply (Str ?t)"
    by (simp add: client_eval string_eval)
  have t: "startswith ?t ''I'm sorry, but''" "startswith ?t ''I'm sorry, but I cannot''"
    "10 \<le> length ?t" "Suc 0 \<noteq> max_attempts"
    by (simp_all add: string_eval max_attempts_def)
  have "?g = (fst ?g, fst (snd ?g), snd (snd ?g))" "?c = (fst ?c, fst (snd ?c), snd (snd ?c))"
    "?m = (fst ?m, fst (snd ?m), snd (snd ?m))"
    by simp_all
  from refusal_never_returned[OF this] g0 m0 t show ?thesis
    by blast
qed

text \<open>
  The claim as stated fails for the Gemini client: it returns the refusal it received.
\<close>

theorem refusal_returned_by_gemini:
  "startswith ''I'm sorry, but I cannot help with that.'' ''I'm sorry, but I cannot''
   \<and> fst (analyze_images_with_gemini_vision sample_imaging (scripted (Raise ''unused'')) ''p''
          [''abc''] Temp_0 [Reply (Str ''I'm sorry, but I cannot help with that.'')])
      = Inr (Some (Str ''I'm sorry, but I cannot help with that.''))"
  by (simp add: client_eval string_eval)

section \<open>The quota signal\<close>

lemma gemini_body_no_exit: "gemini_body L a imgs out \<noteq> Propagate SystemExit"
  using resize_images_no_exit[of L "factor_0_7 L" imgs]
  by (auto simp: gemini_body_def gemini_handler_def split: outcome.splits sum.splits)

lemma never_exits:
  assumes run: "run_attempts body P prompt temp [0..<max_attempts] imgs w = (res, calls, w')"
    and no: "\<And>a im out. body a im out \<noteq> Propagate SystemExit"
  shows "res \<noteq> Inl SystemExit"
proof -
  obtain n where n: "Suc n = length calls"
    using attempts_length(2)[OF run] by (cases calls) auto
  from attempts_last[OF run n] no[of n "req_images (fst (calls ! n))" "snd (calls ! n)"]
  show ?thesis by (auto split: flow.splits)
qed

text \<open>
  Claim C6, as the code has it. Only the Claude client treats an exceeded quota as fatal:
  when a call raises an exception whose lower-cased message contains \<open>exceeded\<close>, that
  call is the last one, the client has written the execution-time table of the module to
  \<open>Claude_execution_times.xlsx\<close>, and the process ends with \<open>SystemExit\<close>; the workbook
  is written in no other case, and \<open>SystemExit\<close> arises in no other way. The GPT-4o and
  the Gemini client never end the process; the GPT-4o client handles such an exception
  (when its message does not also contain \<open>image_parse_error\<close>) like any other: it goes
  on to the next attempt, or returns \<open>None\<close> after the tenth.
\<close>

theorem quota_signal_ends_claude_only:
  assumes cla: "analyze_images_with_claude_vision L P df prompt imgs temp w disk
                  = ((resc, callsc, wc'), disk')"
    and gpt: "analyze_images_with_gpt4_vision L Pq prompt imgs temp wq = (res, calls, w')"
    and gem: "analyze_images_with_gemini_vision L Pg prompt imgs temp wg = (resg, callsg, wg')"
  shows "(\<forall>i e. i < length callsc \<and> snd (callsc ! i) = Raise e \<and> contains ''exceeded'' (lower e)
          \<longrightarrow> Suc i = length callsc \<and> resc = Inl SystemExit
              \<and> disk' = disk(''Claude_execution_times.xlsx'' \<mapsto> df))
    \<and> (resc = Inl SystemExit
          \<longrightarrow> (\<exists>e. snd (last callsc) = Raise e \<and> contains ''exceeded'' (lower e)))
    \<and> (resc \<noteq> Inl SystemExit \<longrightarrow> disk' = disk)
    \<and> res \<noteq> Inl SystemExit
    \<and> resg \<noteq> Inl SystemExit
    \<and> (\<forall>i e. i < length calls \<and> snd (calls ! i) = Raise e \<and> contains ''exceeded'' (lower e)
              \<and> \<not> contains ''image_parse_error'' (lower e)
          \<longrightarrow> Suc i < length calls \<or> (Suc i = max_attempts \<and> res = Inr None))"
proof -
  have rg: "run_attempts (gpt4_body L) Pq prompt temp [0..<max_attempts] imgs wq = (res, calls, w')"
    using gpt by (simp add: analyze_images_with_gpt4_vision_def)
  have rm: "run_attempts (gemini_body L) Pg prompt temp [0..<max_attempts] imgs wg
      = (resg, callsg, wg')"
    using gem by (simp add: analyze_images_with_gemini_vision_def)
  have rc: "run_attempts (claude_body L) P prompt temp [0..<max_attempts] imgs w
      = (resc, callsc, wc')"
    and disk': "disk' = (if resc = Inl SystemExit
        then save_execution_times_to_excel df claude_time_file_name disk else disk)"
    using cla by (auto simp: analyze_images_with_claude_vision_def split: prod.splits)
  have saved: "save_execution_times_to_excel df claude_time_file_name disk
      = disk(''Claude_execution_times.xlsx'' \<mapsto> df)"
    by (simp add: save_execution_times_to_excel_def claude_time_file_name_def)
  have a: "Suc i = length callsc \<and> resc = Inl SystemExit
      \<and> disk' = disk(''Claude_execution_times.xlsx'' \<mapsto> df)"
    if "i < length callsc" "snd (callsc ! i) = Raise e" "contains ''exceeded'' (lower e)" for i e
  proof -
    have ex: "claude_body L a im (Raise e) = Propagate SystemExit" for a im
      using that(3) by (simp add: claude_body_exit claude_fatal_def)
    have "\<not> Suc i < length callsc"
    proof
      assume "Suc i < length callsc"
      from attempts_chain[OF rc this] that(2) ex show False by simp
    qed
    then have n: "Suc i = length callsc" using that(1) by simp
    from attempts_last[OF rc n] that(2) ex have "resc = Inl SystemExit" by simp
    with n disk' saved show ?thesis by simp
  qed
  have b: "\<exists>e. snd (last callsc) = Raise e \<and> contains ''exceeded'' (lower e)"
    if "resc = Inl SystemExit"
  proof -
    obtain n where n: "Suc n = length callsc"
      using attempts_length(2)[OF rc] by (cases callsc) auto
    from attempts_last[OF rc n] that
    have "claude_body L n (req_images (fst (callsc ! n))) (snd (callsc ! n)) = Propagate SystemExit"
      by (auto split: flow.splits)
    then have "claude_fatal (snd (callsc ! n))" by (simp add: claude_body_exit)
    moreover have "last callsc = callsc ! n"
      using n attempts_length(2)[OF rc] by (simp add: last_conv_nth flip: n)
    ultimately show ?thesis by (auto simp: claude_fatal_def split: outcome.splits)
  qed
  have c: "res \<noteq> Inl SystemExit"
    using never_exits[OF rg] gpt4_body_Propagate by blast
  have d: "resg \<noteq> Inl SystemExit"
    using never_exits[OF rm] gemini_body_no_exit by blast
  have e: "Suc i < length calls \<or> (Suc i = max_attempts \<and> res = Inr None)"
    if "i < length calls" "snd (calls ! i) = Raise e"
      "\<not> contains ''image_parse_error'' (lower e)" for i e
    using retried_or_exhausted[OF rg _ that(1,2)] that(3)
    by (simp add: gpt4_body_Raise_Continue)
  have f: "disk' = disk" if "resc \<noteq> Inl SystemExit"
    using disk' that by simp
  show ?thesis
    using a b c d e f by blast
qed

theorem quota_signal_ends_claude_only_witness:
  "fst (analyze_images_with_claude_vision sample_imaging (scripted (Reply ''CT''))
          [\<lparr>row_number = 1, row_temperature = Temp_0, row_try = 1, row_time = (7::nat)\<rparr>]
          ''p'' [''abc''] Temp_0 [Raise ''timeout'', Raise ''Quota EXCEEDED''] Map.empty)
     = (Inl SystemExit,
        [(\<lparr>req_prompt = ''p'', req_images = [''abc''], req_temperature = Temp_0\<rparr>,
          Raise ''timeout''),
         (\<lparr>req_prompt = ''p'', req_images = [''abc''], req_temperature = Temp_0\<rparr>,
          Raise ''Quota EXCEEDED'')],
        [])
   \<and> snd (analyze_images_with_claude_vision sample_imaging (scripted (Reply ''CT''))
          [\<lparr>row_number = 1, row_temperature = Temp_0, row_try = 1, row_time = (7::nat)\<rparr>]
          ''p'' [''abc''] Temp_0 [Raise ''timeout'', Raise ''Quota EXCEEDED''] Map.empty)
        ''Claude_execution_times.xlsx''
     = Some [\<lparr>row_number = 1, row_temperature = Temp_0, row_try = 1, row_time = 7\<rparr>]"
proof -
  let ?df = "[\<lparr>row_number = 1, row_temperature = Temp_0, row_try = 1, row_time = (7::nat)\<rparr>]"
  let ?c = "analyze_images_with_claude_vision sample_imaging (scripted (Reply ''CT''))
          ?df ''p'' [''abc''] Temp_0 [Raise ''timeout'', Raise ''Quota EXCEEDED''] Map.empty"
  let ?g = "analyze_images_with_gpt4_vision sample_imaging (scripted (Reply ''CT''))
          ''p'' [''abc''] Temp_0 [Raise ''timeout'', Raise ''Quota EXCEEDED'']"
  let ?m = "analyze_images_with_gemini_vision sample_imaging (scripted (Raise ''unused''))
          ''p'' [''abc''] Temp_0 []"
  have calls: "fst (snd (fst ?c))
      = [(\<lparr>req_prompt = ''p'', req_images = [''abc''], req_temperature = Temp_0\<rparr>,
          Raise ''timeout''),
         (\<lparr>req_prompt = ''p'', req_images = [''abc''], req_temperature = Temp_0\<rparr>,
          Raise ''Quota EXCEEDED'')]"
    and world: "snd (snd (fst ?c)) = []"
    by (simp_all add: client_eval string_eval)
  have sig: "contains ''exceeded'' (lower ''Quota EXCEEDED'')"
    by (simp add: string_eval)
  have "?c = ((fst (fst ?c), fst (snd (fst ?c)), snd (snd (fst ?c))), snd ?c)"
    "?g = (fst ?g, fst (snd ?g), snd (snd ?g))" "?m = (fst ?m, fst (snd ?m), snd (snd ?m))"
    by simp_all
  note T = quota_signal_ends_claude_only[OF this, THEN conjunct1, rule_format,
      of 1 "''Quota EXCEEDED''"]
  have pre: "1 < length (fst (snd (fst ?c))) \<and> snd (fst (snd (fst ?c)) ! 1) = Raise ''Quota EXCEEDED''
      \<and> contains ''exceeded'' (lower ''Quota EXCEEDED'')"
    unfolding calls using sig by simp
  from T[OF pre]
  have "fst (fst ?c) = Inl SystemExit"
    and "snd ?c = Map.empty(''Claude_execution_times.xlsx'' \<mapsto> ?df)"
    by simp_all
  with calls world show ?thesis
    by (simp add: prod_eq_iff)
qed

text \<open>
  The claim as stated fails for the GPT-4o client: a quota signal on every call is retried
  until the attempts run out, and the client returns \<open>None\<close>.
\<close>

theorem quota_signal_retried_by_gpt4:
  "contains ''exceeded'' (lower ''Rate limit exceeded'')
   \<and> fst (analyze_images_with_gpt4_vision sample_imaging
          (scripted (Raise ''Rate limit exceeded'')) ''p'' [''abc''] Temp_0 []) = Inr None
   \<and> length (fst (snd (analyze_images_with_gpt4_vision sample_imaging
          (scripted (Raise ''Rate limit exceeded'')) ''p'' [''abc''] Temp_0 []))) = 10
   \<and> snd (last (fst (snd (analyze_images_with_gpt4_vision sample_imaging
          (scripted (Raise ''Rate limit exceeded'')) ''p'' [''abc''] Temp_0 []))))
       = Raise ''Rate limit exceeded''"
  by (simp add: client_eval string_eval)

section \<open>What a retry sends\<close>

lemma retry_not_last:
  assumes "run_attempts body P prompt temp [0..<max_attempts] imgs w = (res, calls, w')"
    and "Suc i < length calls"
  shows "i < max_attempts - 1"
  using attempts_length(1)[OF assms(1)] assms(2) by simp

text \<open>
  Claim C3, as the code has it. In all three clients every request carries the prompt and
  the temperature the client was called with, and the first request carries the images it
  was called with. What follows a call that did not end the loop with a result depends on
  the client and on the outcome of the call.

  \<^item> GPT-4o and Claude, a response that starts with \<open>I'm sorry, but\<close>: the client makes
    another call with the same encoded images, nothing is re-encoded; after the tenth
    call it returns \<open>None\<close>.
  \<^item> GPT-4o and Claude, an exception at a call before the tenth whose lower-cased message
    contains \<open>image_parse_error\<close> (and, for Claude, does not contain \<open>exceeded\<close>): every
    image is passed through \<open>process_and_encode_image\<close> with factor 0.9. When that
    succeeds the client makes another call with the re-encoded images; when it raises, no
    further call is made and the exception leaves the client.
  \<^item> GPT-4o and Claude, any other exception (for Claude, one whose message does not
    contain \<open>exceeded\<close>): the client makes another call with the same images; after the
    tenth call it returns \<open>None\<close>.
  \<^item> Gemini, a string of fewer than ten characters, when passing every image through
    \<open>process_and_encode_image\<close> with factor 0.9 succeeds: the client makes another call
    with the re-encoded images; after the tenth call it returns \<open>None\<close>.

  Conversely, when the GPT-4o or the Claude client goes on to another call after a
  response, that response started with \<open>I'm sorry, but\<close> and the images are the same;
  when either goes on after an exception, the images are the re-encoded ones if the
  message contains \<open>image_parse_error\<close>, and the same otherwise; when the Gemini client
  goes on after a response, that response was a string of fewer than ten characters.
\<close>

theorem retry_keeps_prompt_and_temperature:
  assumes gpt: "analyze_images_with_gpt4_vision L P prompt imgs temp w = (res, calls, w')"
    and cla: "fst (analyze_images_with_claude_vision L P df prompt imgs temp w disk)
                = (resc, callsc, wc')"
    and gem: "analyze_images_with_gemini_vision L Pg prompt imgs temp wg = (resg, callsg, wg')"
  shows "(\<forall>i<length calls. req_prompt (fst (calls ! i)) = prompt
              \<and> req_temperature (fst (calls ! i)) = temp)
    \<and> (\<forall>i<length callsc. req_prompt (fst (callsc ! i)) = prompt
              \<and> req_temperature (fst (callsc ! i)) = temp)
    \<and> (\<forall>i<length callsg. req_prompt (fst (callsg ! i)) = prompt
              \<and> req_temperature (fst (callsg ! i)) = temp)
    \<and> req_images (fst (calls ! 0)) = imgs
    \<and> req_images (fst (callsc ! 0)) = imgs
    \<and> req_images (fst (callsg ! 0)) = imgs
    \<and> (\<forall>i t. Suc i < length calls \<and> snd (calls ! i) = Reply t
          \<longrightarrow> startswith t ''I'm sorry, but''
              \<and> req_images (fst (calls ! Suc i)) = req_images (fst (calls ! i)))
    \<and> (\<forall>i t. Suc i < length callsc \<and> snd (callsc ! i) = Reply t
          \<longrightarrow> startswith t ''I'm sorry, but''
              \<and> req_images (fst (callsc ! Suc i)) = req_images (fst (callsc ! i)))
    \<and> (\<forall>i e. Suc i < length calls \<and> snd (calls ! i) = Raise e
          \<longrightarrow> (if contains ''image_parse_error'' (lower e)
               then resize_images L (factor_0_9 L) (req_images (fst (calls ! i)))
                      = Inr (req_images (fst (calls ! Suc i)))
               else req_images (fst (calls ! Suc i)) = req_images (fst (calls ! i))))
    \<and> (\<forall>i e. Suc i < length callsc \<and> snd (callsc ! i) = Raise e
          \<longrightarrow> (if contains ''image_parse_error'' (lower e)
               then resize_images L (factor_0_9 L) (req_images (fst (callsc ! i)))
                      = Inr (req_images (fst (callsc ! Suc i)))
               else req_images (fst (callsc ! Suc i)) = req_images (fst (callsc ! i))))
    \<and> (\<forall>i c images. Suc i < length callsg \<and> snd (callsg ! i) = Reply c
              \<and> resize_images L (factor_0_9 L) (req_images (fst (callsg ! i))) = Inr images
          \<longrightarrow> is_short_str c \<and> req_images (fst (callsg ! Suc i)) = images)
    \<and> (\<forall>i t. i < length calls \<and> snd (calls ! i) = Reply t \<and> startswith t ''I'm sorry, but''
          \<longrightarrow> (if Suc i < max_attempts
               then Suc i < length calls
                  \<and> req_images (fst (calls ! Suc i)) = req_images (fst (calls ! i))
               else Suc i = length calls \<and> res = Inr None))
    \<and> (\<forall>i t. i < length callsc \<and> snd (callsc ! i) = Reply t \<and> startswith t ''I'm sorry, but''
          \<longrightarrow> (if Suc i < max_attempts
               then Suc i < length callsc
                  \<and> req_images (fst (callsc ! Suc i)) = req_images (fst (callsc ! i))
               else Suc i = length callsc \<and> resc = Inr None))
    \<and> (\<forall>i e. i < length calls \<and> snd (calls ! i) = Raise e
              \<and> contains ''image_parse_error'' (lower e) \<and> Suc i < max_attempts
          \<longrightarrow> (case resize_images L (factor_0_9 L) (req_images (fst (calls ! i))) of
                 Inr images \<Rightarrow>
                   Suc i < length calls \<and> req_images (fst (calls ! Suc i)) = images
               | Inl err \<Rightarrow> Suc i = length calls \<and> res = Inl err))
    \<and> (\<forall>i e. i < length callsc \<and> snd (callsc ! i) = Raise e
              \<and> \<not> contains ''exceeded'' (lower e)
              \<and> contains ''image_parse_error'' (lower e) \<and> Suc i < max_attempts
          \<longrightarrow> (case resize_images L (factor_0_9 L) (req_images (fst (callsc ! i))) of
                 Inr images \<Rightarrow>
                   Suc i < length callsc \<and> req_images (fst (callsc ! Suc i)) = images
               | Inl err \<Rightarrow> Suc i = length callsc \<and> resc = Inl err))
    \<and> (\<forall>i e. i < length calls \<and> snd (calls ! i) = Raise e
              \<and> \<not> (contains ''image_parse_error'' (lower e) \<and> Suc i < max_attempts)
          \<longrightarrow> (if Suc i < max_attempts
               then Suc i < length calls
                  \<and> req_images (fst (calls ! Suc i)) = req_images (fst (calls ! i))
               else Suc i = length calls \<and> res = Inr None))
    \<and> (\<forall>i e. i < length callsc \<and> snd (callsc ! i) = Raise e
              \<and> \<not> contains ''exceeded'' (lower e)
              \<and> \<not> (contains ''image_parse_error'' (lower e) \<and> Suc i < max_attempts)
          \<longrightarrow> (if Suc i < max_attempts
               then Suc i < length callsc
                  \<and> req_images (fst (callsc ! Suc i)) = req_images (fst (callsc ! i))
               else Suc i = length callsc \<and> resc = Inr None))
    \<and> (\<forall>i c images. i < length callsg \<and> snd (callsg ! i) = Reply c \<and> is_short_str c
              \<and> resize_images L (factor_0_9 L) (req_images (fst (callsg ! i))) = Inr images
          \<longrightarrow> (if Suc i < max_attempts
               then Suc i < length callsg \<and> req_images (fst (callsg ! Suc i)) = images
               else Suc i = length callsg \<and> resg = Inr None))"
proof -
  have rg: "run_attempts (gpt4_body L) P prompt temp [0..<max_attempts] imgs w = (res, calls, w')"
    using gpt by (simp add: analyze_images_with_gpt4_vision_def)
  have rm: "run_attempts (gemini_body L) Pg prompt temp [0..<max_attempts] imgs wg
      = (resg, callsg, wg')"
    using gem by (simp add: analyze_images_with_gemini_vision_def)
  have rc: "run_attempts (claude_body L) P prompt temp [0..<max_attempts] imgs w
      = (resc, callsc, wc')"
    using cla by (simp add: analyze_images_with_claude_vision_def split: prod.splits)
  have pre: "refusal_prefix = ''I'm sorry, but''" by (simp add: refusal_prefix_def)
  have g1: "startswith t ''I'm sorry, but''
      \<and> req_images (fst (calls ! Suc i)) = req_images (fst (calls ! i))"
    if "Suc i < length calls" "snd (calls ! i) = Reply t" for i t
    using attempts_chain[OF rg that(1)] that(2)
    by (simp add: gpt4_body_Reply_Continue pre)
  have c1: "startswith t ''I'm sorry, but''
      \<and> req_images (fst (callsc ! Suc i)) = req_images (fst (callsc ! i))"
    if "Suc i < length callsc" "snd (callsc ! i) = Reply t" for i t
    using attempts_chain[OF rc that(1)] that(2)
    by (simp add: claude_body_Reply_Continue pre)
  have g2: "if contains ''image_parse_error'' (lower e)
      then resize_images L (factor_0_9 L) (req_images (fst (calls ! i)))
             = Inr (req_images (fst (calls ! Suc i)))
      else req_images (fst (calls ! Suc i)) = req_images (fst (calls ! i))"
    if "Suc i < length calls" "snd (calls ! i) = Raise e" for i e
    using attempts_chain[OF rg that(1)] that(2) retry_not_last[OF rg that(1)]
    by (simp add: gpt4_body_Raise_Continue)
  have c2: "if contains ''image_parse_error'' (lower e)
      then resize_images L (factor_0_9 L) (req_images (fst (callsc ! i)))
             = Inr (req_images (fst (callsc ! Suc i)))
      else req_images (fst (callsc ! Suc i)) = req_images (fst (callsc ! i))"
    if "Suc i < length callsc" "snd (callsc ! i) = Raise e" for i e
    using attempts_chain[OF rc that(1)] that(2) retry_not_last[OF rc that(1)]
    by (simp add: claude_body_Raise_Continue)
  have m1: "is_short_str c \<and> req_images (fst (callsg ! Suc i)) = images"
    if "Suc i < length callsg" "snd (callsg ! i) = Reply c"
      "resize_images L (factor_0_9 L) (req_images (fst (callsg ! i))) = Inr images" for i c images
    using attempts_chain[OF rm that(1)] that(2) gemini_body_short_resized[OF _ that(3)]
    by simp
  have g3: "if Suc i < max_attempts
      then Suc i < length calls \<and> req_images (fst (calls ! Suc i)) = req_images (fst (calls ! i))
      else Suc i = length calls \<and> res = Inr None"
    if "i < length calls" "snd (calls ! i) = Reply t" "startswith t ''I'm sorry, but''" for i t
  proof -
    have "gpt4_body L i (req_images (fst (calls ! i))) (snd (calls ! i))
        = Continue (req_images (fst (calls ! i)))"
      using that(2,3) by (simp add: gpt4_body_def pre)
    from attempts_continue[OF rg that(1) this] show ?thesis .
  qed
  have c3: "if Suc i < max_attempts
      then Suc i < length callsc
         \<and> req_images (fst (callsc ! Suc i)) = req_images (fst (callsc ! i))
      else Suc i = length callsc \<and> resc = Inr None"
    if "i < length callsc" "snd (callsc ! i) = Reply t" "startswith t ''I'm sorry, but''" for i t
  proof -
    have "claude_body L i (req_images (fst (callsc ! i))) (snd (callsc ! i))
        = Continue (req_images (fst (callsc ! i)))"
      using that(2,3) by (simp add: claude_body_def pre)
    from attempts_continue[OF rc that(1) this] show ?thesis .
  qed
  have g4: "case resize_images L (factor_0_9 L) (req_images (fst (calls ! i))) of
        Inr images \<Rightarrow> Suc i < length calls \<and> req_images (fst (calls ! Suc i)) = images
      | Inl err \<Rightarrow> Suc i = length calls \<and> res = Inl err"
    if "i < length calls" "snd (calls ! i) = Raise e"
      "contains ''image_parse_error'' (lower e)" "Suc i < max_attempts" for i e
  proof (cases "resize_images L (factor_0_9 L) (req_images (fst (calls ! i)))")
    case (Inl err)
    then have "gpt4_body L i (req_images (fst (calls ! i))) (snd (calls ! i)) = Propagate err"
      using that(2,3,4) by (simp add: gpt4_body_Raise)
    from attempts_propagate[OF rg that(1) this] Inl show ?thesis by simp
  next
    case (Inr images)
    then have "gpt4_body L i (req_images (fst (calls ! i))) (snd (calls ! i)) = Continue images"
      using that(2,3,4) by (simp add: gpt4_body_Raise)
    from attempts_continue[OF rg that(1) this] Inr that(4) show ?thesis by simp
  qed
  have c4: "case resize_images L (factor_0_9 L) (req_images (fst (callsc ! i))) of
        Inr images \<Rightarrow> Suc i < length callsc \<and> req_images (fst (callsc ! Suc i)) = images
      | Inl err \<Rightarrow> Suc i = length callsc \<and> resc = Inl err"
    if "i < length callsc" "snd (callsc ! i) = Raise e" "\<not> contains ''exceeded'' (lower e)"
      "contains ''image_parse_error'' (lower e)" "Suc i < max_attempts" for i e
  proof (cases "resize_images L (factor_0_9 L) (req_images (fst (callsc ! i)))")
    case (Inl err)
    then have "claude_body L i (req_images (fst (callsc ! i))) (snd (callsc ! i))
        = Propagate err"
      using that(2,3,4,5) by (simp add: claude_body_Raise)
    from attempts_propagate[OF rc that(1) this] Inl show ?thesis by simp
  next
    case (Inr images)
    then have "claude_body L i (req_images (fst (callsc ! i))) (snd (callsc ! i))
        = Continue images"
      using that(2,3,4,5) by (simp add: claude_body_Raise)
    from attempts_continue[OF rc that(1) this] Inr that(5) show ?thesis by simp
  qed
  have g5: "if Suc i < max_attempts
      then Suc i < length calls \<and> req_images (fst (calls ! Suc i)) = req_images (fst (calls ! i))
      else Suc i = length calls \<and> res = Inr None"
    if "i < length calls" "snd (calls ! i) = Raise e"
      "\<not> (contains ''image_parse_error'' (lower e) \<and> Suc i < max_attempts)" for i e
  proof -
    have "gpt4_body L i (req_images (fst (calls ! i))) (snd (calls ! i))
        = Continue (req_images (fst (calls ! i)))"
      using that(2,3) by (cases "contains ''image_parse_error'' (lower e)")
        (simp_all add: gpt4_body_Raise)
    from attempts_continue[OF rg that(1) this] show ?thesis .
  qed
  have c5: "if Suc i < max_attempts
      then Suc i < length callsc
         \<and> req_images (fst (callsc ! Suc i)) = req_images (fst (callsc ! i))
      else Suc i = length callsc \<and> resc = Inr None"
    if "i < length callsc" "snd (callsc ! i) = Raise e" "\<not> contains ''exceeded'' (lower e)"
      "\<not> (contains ''image_parse_error'' (lower e) \<and> Suc i < max_attempts)" for i e
  proof -
    have "claude_body L i (req_images (fst (callsc ! i))) (snd (callsc ! i))
        = Continue (req_images (fst (callsc ! i)))"
      using that(2,3,4) by (cases "contains ''image_parse_error'' (lower e)")
        (simp_all add: claude_body_Raise)
    from attempts_continue[OF rc that(1) this] show ?thesis .
  qed
  have m2: "if Suc i < max_attempts
      then Suc i < length callsg \<and> req_images (fst (callsg ! Suc i)) = images
      else Suc i = length callsg \<and> resg = Inr None"
    if "i < length callsg" "snd (callsg ! i) = Reply c" "is_short_str c"
      "resize_images L (factor_0_9 L) (req_images (fst (callsg ! i))) = Inr images"
    for i c images
  proof -
    have "gemini_body L i (req_images (fst (callsg ! i))) (snd (callsg ! i)) = Continue images"
      using that(2,3,4) by (simp add: gemini_body_def)
    from attempts_continue[OF rm that(1) this] show ?thesis .
  qed
  have old: "(\<forall>i<length calls. req_prompt (fst (calls ! i)) = prompt
              \<and> req_temperature (fst (calls ! i)) = temp)
    \<and> (\<forall>i<length callsc. req_prompt (fst (callsc ! i)) = prompt
              \<and> req_temperature (fst (callsc ! i)) = temp)
    \<and> (\<forall>i<length callsg. req_prompt (fst (callsg ! i)) = prompt
              \<and> req_temperature (fst (callsg ! i)) = temp)
    \<and> req_images (fst (calls ! 0)) = imgs
    \<and> req_images (fst (callsc ! 0)) = imgs
    \<and> req_images (fst (callsg ! 0)) = imgs
    \<and> (\<forall>i t. Suc i < length calls \<and> snd (calls ! i) = Reply t
          \<longrightarrow> startswith t ''I'm sorry, but''
              \<and> req_images (fst (calls ! Suc i)) = req_images (fst (calls ! i)))
    \<and> (\<forall>i t. Suc i < length callsc \<and> snd (callsc ! i) = Reply t
          \<longrightarrow> startswith t ''I'm sorry, but''
              \<and> req_images (fst (callsc ! Suc i)) = req_images (fst (callsc ! i)))
    \<and> (\<forall>i e. Suc i < length calls \<and> snd (calls ! i) = Raise e
          \<longrightarrow> (if contains ''image_parse_error'' (lower e)
               then resize_images L (factor_0_9 L) (req_images (fst (calls ! i)))
                      = Inr (req_images (fst (calls ! Suc i)))
               else req_images (fst (calls ! Suc i)) = req_images (fst (calls ! i))))
    \<and> (\<forall>i e. Suc i < length callsc \<and> snd (callsc ! i) = Raise e
          \<longrightarrow> (if contains ''image_parse_error'' (lower e)
               then resize_images L (factor_0_9 L) (req_images (fst (callsc ! i)))
                      = Inr (req_images (fst (callsc ! Suc i)))
               else req_images (fst (callsc ! Suc i)) = req_images (fst (callsc ! i))))
    \<and> (\<forall>i c images. Suc i < length callsg \<and> snd (callsg ! i) = Reply c
              \<and> resize_images L (factor_0_9 L) (req_images (fst (callsg ! i))) = Inr images
          \<longrightarrow> is_short_str c \<and> req_images (fst (callsg ! Suc i)) = images)"
    using attempts_requests[OF rg] attempts_requests[OF rc] attempts_requests[OF rm]
      attempts_first[OF rg] attempts_first[OF rc] attempts_first[OF rm]
      g1 c1 g2 c2 m1
    by (intro conjI allI impI) blast+
  have new: "(\<forall>i t. i < length calls \<and> snd (calls ! i) = Reply t \<and> startswith t ''I'm sorry, but''
          \<longrightarrow> (if Suc i < max_attempts
               then Suc i < length calls
                  \<and> req_images (fst (calls ! Suc i)) = req_images (fst (calls ! i))
               else Suc i = length calls \<and> res = Inr None))
    \<and> (\<forall>i t. i < length callsc \<and> snd (callsc ! i) = Reply t \<and> startswith t ''I'm sorry, but''
          \<longrightarrow> (if Suc i < max_attempts
               then Suc i < length callsc
                  \<and> req_images (fst (callsc ! Suc i)) = req_images (fst (callsc ! i))
               else Suc i = length callsc \<and> resc = Inr None))
    \<and> (\<forall>i e. i < length calls \<and> snd (calls ! i) = Raise e
              \<and> contains ''image_parse_error'' (lower e) \<and> Suc i < max_attempts
          \<longrightarrow> (case resize_images L (factor_0_9 L) (req_images (fst (calls ! i))) of
                 Inr images \<Rightarrow>
                   Suc i < length calls \<and> req_images (fst (calls ! Suc i)) = images
               | Inl err \<Rightarrow> Suc i = length calls \<and> res = Inl err))
    \<and> (\<forall>i e. i < length callsc \<and> snd (callsc ! i) = Raise e
              \<and> \<not> contains ''exceeded'' (lower e)
              \<and> contains ''image_parse_error'' (lower e) \<and> Suc i < max_attempts
          \<longrightarrow> (case resize_images L (factor_0_9 L) (req_images (fst (callsc ! i))) of
                 Inr images \<Rightarrow>
                   Suc i < length callsc \<and> req_images (fst (callsc ! Suc i)) = images
               | Inl err \<Rightarrow> Suc i = length callsc \<and> resc = Inl err))
    \<and> (\<forall>i e. i < length calls \<and> snd (calls ! i) = Raise e
              \<and> \<not> (contains ''image_parse_error'' (lower e) \<and> Suc i < max_attempts)
          \<longrightarrow> (if Suc i < max_attempts
               then Suc i < length calls
                  \<and> req_images (fst (calls ! Suc i)) = req_images (fst (calls ! i))
               else Suc i = length calls \<and> res = Inr None))
    \<and> (\<forall>i e. i < length callsc \<and> snd (callsc ! i) = Raise e
              \<and> \<not> contains ''exceeded'' (lower e)
              \<and> \<not> (contains ''image_parse_error'' (lower e) \<and> Suc i < max_attempts)
          \<longrightarrow> (if Suc i < max_attempts
               then Suc i < length callsc
                  \<and> req_images (fst (callsc ! Suc i)) = req_images (fst (callsc ! i))
               else Suc i = length callsc \<and> resc = Inr None))
    \<and> (\<forall>i c images. i < length callsg \<and> snd (callsg ! i) = Reply c \<and> is_short_str c
              \<and> resize_images L (factor_0_9 L) (req_images (fst (callsg ! i))) = Inr images
          \<longrightarrow> (if Suc i < max_attempts
               then Suc i < length callsg \<and> req_images (fst (callsg ! Suc i)) = images
               else Suc i = length callsg \<and> resg = Inr None))"
    by (intro conjI; intro allI impI; elim conjE; (rule g3 c3 g4 c4 g5 c5 m2; assumption))
  from old new show ?thesis by - (elim conjE, intro conjI, assumption+)
qed

theorem retry_keeps_prompt_and_temperature_witness:
  "req_images (fst (fst (snd (analyze_images_with_gpt4_vision sample_imaging
        (scripted (Raise ''unused'')) ''p'' [''abc''] Temp_0
        [Raise ''image_parse_error: bad'', Reply ''CT''])) ! Suc 0))
     = [replicate 3 CHR ''A'']
   \<and> req_prompt (fst (fst (snd (analyze_images_with_gpt4_vision sample_imaging
        (scripted (Raise ''unused'')) ''p'' [''abc''] Temp_0
        [Raise ''image_parse_error: bad'', Reply ''CT''])) ! Suc 0))
     = ''p''
   \<and> req_images (fst (fst (snd (analyze_images_with_gemini_vision sample_imaging
        (scripted (Raise ''unused'')) ''p'' [''abc''] Temp_0
        [Reply (Str ''short''), Reply (Str ''1. Type of imaging: CT'')])) ! Suc 0))
     = [replicate 3 CHR ''A'']"
proof -
  let ?w = "[Raise ''image_parse_error: bad'', Reply ''CT'']"
  let ?g = "analyze_images_with_gpt4_vision sample_imaging (scripted (Raise ''unused'')) ''p''
      [''abc''] Temp_0 ?w"
  let ?c = "fst (analyze_images_with_claude_vision sample_imaging (scripted (Raise ''unused''))
      ([] :: (temperature, nat) timing_row list) ''p'' [''abc''] Temp_0 ?w Map.empty)"
  let ?m = "analyze_images_with_gemini_vision sample_imaging (scripted (Raise ''unused'')) ''p''
      [''abc''] Temp_0 [Reply (Str ''short''), Reply (Str ''1. Type of imaging: CT'')]"
  have g0: "0 < length (fst (snd ?g))"
    "snd (fst (snd ?g) ! 0) = Raise ''image_parse_error: bad''"
    by (simp_all add: client_eval string_eval encoder_eval)
  have m0: "0 < length (fst (snd ?m))" "snd (fst (snd ?m) ! 0) = Reply (Str ''short'')"
    by (simp_all add: client_eval string_eval encoder_eval)
  have sig: "contains ''image_parse_error'' (lower ''image_parse_error: bad'')"
    by (simp add: string_eval)
  have rs: "resize_images sample_imaging (factor_0_9 sample_imaging) [''abc'']
      = Inr [replicate 3 CHR ''A'']"
    by (simp add: encoder_eval)
  have short: "is_short_str (Str ''short'')" by simp
  have more: "Suc 0 < max_attempts" by (simp add: max_attempts_def)
  have "?g = (fst ?g, fst (snd ?g), snd (snd ?g))" "?c = (fst ?c, fst (snd ?c), snd (snd ?c))"
    "?m = (fst ?m, fst (snd ?m), snd (snd ?m))"
    by simp_all
  note T = retry_keeps_prompt_and_temperature[OF this]
  from T have first_g: "req_images (fst (fst (snd ?g) ! 0)) = [''abc'']"
    by (elim conjE) assumption
  from T have first_m: "req_images (fst (fst (snd ?m) ! 0)) = [''abc'']"
    by (elim conjE) assumption
  from T have same: "\<forall>i<length (fst (snd ?g)). req_prompt (fst (fst (snd ?g) ! i)) = ''p''
      \<and> req_temperature (fst (fst (snd ?g) ! i)) = Temp_0"
    by (elim conjE) assumption
  from T have parse: "\<forall>i e. i < length (fst (snd ?g)) \<and> snd (fst (snd ?g) ! i) = Raise e
        \<and> contains ''image_parse_error'' (lower e) \<and> Suc i < max_attempts
      \<longrightarrow> (case resize_images sample_imaging (factor_0_9 sample_imaging)
                  (req_images (fst (fst (snd ?g) ! i))) of
            Inr images \<Rightarrow> Suc i < length (fst (snd ?g))
              \<and> req_images (fst (fst (snd ?g) ! Suc i)) = images
          | Inl err \<Rightarrow> Suc i = length (fst (snd ?g)) \<and> fst ?g = Inl err)"
    by (elim conjE) assumption
  from T have few: "\<forall>i c images. i < length (fst (snd ?m)) \<and> snd (fst (snd ?m) ! i) = Reply c
        \<and> is_short_str c
        \<and> resize_images sample_imaging (factor_0_9 sample_imaging)
            (req_images (fst (fst (snd ?m) ! i))) = Inr images
      \<longrightarrow> (if Suc i < max_attempts
           then Suc i < length (fst (snd ?m))
              \<and> req_images (fst (fst (snd ?m) ! Suc i)) = images
           else Suc i = length (fst (snd ?m)) \<and> fst ?m = Inr None)"
    by (elim conjE) assumption
  from parse[rule_format, of 0 "''image_parse_error: bad''"] g0 sig more rs first_g
  have g1: "Suc 0 < length (fst (snd ?g))"
    "req_images (fst (fst (snd ?g) ! Suc 0)) = [replicate 3 CHR ''A'']"
    by simp_all
  from same g1(1) have p: "req_prompt (fst (fst (snd ?g) ! Suc 0)) = ''p''"
    by blast
  from few[rule_format, of 0 "Str ''short''" "[replicate 3 CHR ''A'']"] m0 short rs first_m more
  have m1: "req_images (fst (fst (snd ?m) ! Suc 0)) = [replicate 3 CHR ''A'']"
    by simp
  from g1(2) p m1 show ?thesis by simp
qed

text \<open>
  The claim as stated fails: after a refusal the GPT-4o client retries with the images it
  sent before, although re-encoding them would give other strings.
\<close>

theorem refusal_retried_with_same_images:
  "analyze_images_with_gpt4_vision sample_imaging (scripted (Raise ''unused'')) ''p'' [''abc'']
      Temp_0 [Reply ''I'm sorry, but I cannot help with that.'', Reply ''CT'']
     = (Inr (Some ''CT''),
        [(\<lparr>req_prompt = ''p'', req_images = [''abc''], req_temperature = Temp_0\<rparr>,
          Reply ''I'm sorry, but I cannot help with that.''),
         (\<lparr>req_prompt = ''p'', req_images = [''abc''], req_temperature = Temp_0\<rparr>,
          Reply ''CT'')],
        [])
   \<and> resize_images sample_imaging (factor_0_9 sample_imaging) [''abc'']
     = Inr [replicate 3 CHR ''A'']"
  by (simp add: client_eval string_eval encoder_eval)

section \<open>Properties of the timing recorder\<close>

lemma key_matches_row_key: "key_matches n t k r \<longleftrightarrow> row_key r = (n, t, k)"
  by (auto simp: key_matches_def row_key_def)

lemma record_time_keys:
  "map row_key (record_time df n t k x) =
     (if (n, t, k) \<in> set (map row_key df) then map row_key df else map row_key df @ [(n, t, k)])"
  by (auto simp: record_time_def list_ex_iff key_matches_row_key row_key_def)

lemma record_time_distinct:
  "distinct (map row_key df) \<Longrightarrow> distinct (map row_key (record_time df n t k x))"
  by (simp add: record_time_keys)

lemma no_key_no_rows:
  "(n, t, k) \<notin> set (map row_key df) \<Longrightarrow> filter (key_matches n t k) df = []"
  by (induction df) (auto simp: key_matches_row_key)

lemma no_key_no_match:
  "(n, t, k) \<notin> set (map row_key df) \<Longrightarrow> \<not> list_ex (key_matches n t k) df"
  by (induction df) (auto simp: key_matches_row_key)

lemma rows_with_key_other:
  "(n', t', k') \<noteq> (n, t, k) \<Longrightarrow>
     rows_with_key n t k (record_time df n' t' k' x) = rows_with_key n t k df"
proof -
  assume ne: "(n', t', k') \<noteq> (n, t, k)"
  have "filter (key_matches n t k)
          (map (\<lambda>r. if key_matches n' t' k' r then r\<lparr>row_time := x\<rparr> else r) df)
        = filter (key_matches n t k) df"
    using ne by (induction df) (auto simp: key_matches_def)
  then show ?thesis
    using ne by (auto simp: rows_with_key_def record_time_def key_matches_def)
qed

lemma distinct_key_single:
  "distinct (map row_key df) \<Longrightarrow> (n, t, k) \<in> set (map row_key df) \<Longrightarrow>
     \<exists>r. rows_with_key n t k df = [r] \<and> row_key r = (n, t, k)"
proof (induction df)
  case Nil
  then show ?case by simp
next
  case (Cons a df)
  show ?case
  proof (cases "row_key a = (n, t, k)")
    case True
    then have "(n, t, k) \<notin> set (map row_key df)" using Cons.prems(1) by auto
    then have "filter (key_matches n t k) df = []"
      by (rule no_key_no_rows)
    with True show ?thesis by (simp add: rows_with_key_def key_matches_row_key)
  next
    case False
    then have "(n, t, k) \<in> set (map row_key df)" using Cons.prems(2) by auto
    with Cons.IH Cons.prems(1) False show ?thesis
      by (simp add: rows_with_key_def key_matches_row_key)
  qed
qed

lemma distinct_key_at_most_one:
  "distinct (map row_key df) \<Longrightarrow> length (rows_with_key n t k df) \<le> 1"
proof (cases "(n, t, k) \<in> set (map row_key df)")
  case True
  assume "distinct (map row_key df)"
  from distinct_key_single[OF this True] show ?thesis by auto
next
  case False
  then have "filter (key_matches n t k) df = []"
    by (rule no_key_no_rows)
  then show ?thesis by (simp add: rows_with_key_def)
qed

lemma rows_with_key_same:
  assumes "distinct (map row_key df)"
  shows "rows_with_key n t k (record_time df n t k x)
     = [\<lparr>row_number = n, row_temperature = t, row_try = k, row_time = x\<rparr>]"
proof (cases "(n, t, k) \<in> set (map row_key df)")
  case True
  then have ex: "list_ex (key_matches n t k) df"
    by (auto simp: list_ex_iff key_matches_row_key)
  from distinct_key_single[OF assms True] obtain r
    where r: "filter (key_matches n t k) df = [r]" "row_key r = (n, t, k)"
    by (auto simp: rows_with_key_def)
  have "filter (key_matches n t k)
          (map (\<lambda>r. if key_matches n t k r then r\<lparr>row_time := x\<rparr> else r) df)
        = map (\<lambda>r. r\<lparr>row_time := x\<rparr>) (filter (key_matches n t k) df)"
    by (induction df) (auto simp: key_matches_def)
  also have "\<dots> = [r\<lparr>row_time := x\<rparr>]" using r(1) by simp
  also have "r\<lparr>row_time := x\<rparr>
      = \<lparr>row_number = n, row_temperature = t, row_try = k, row_time = x\<rparr>"
    using r(2) by (cases r) (simp add: row_key_def)
  finally show ?thesis using ex by (simp add: rows_with_key_def record_time_def)
next
  case False
  then have no: "\<not> list_ex (key_matches n t k) df" "filter (key_matches n t k) df = []"
    by (simp_all add: no_key_no_rows no_key_no_match)
  then show ?thesis
    by (simp add: rows_with_key_def record_time_def key_matches_def)
qed

text \<open>A sequence of recorder calls, each a case number, temperature, try and time.\<close>

lemma record_times_distinct:
  "distinct (map row_key df) \<Longrightarrow>
     distinct (map row_key (foldl (\<lambda>d (n, t, k, x). record_time d n t k x) df calls))"
  by (induction calls arbitrary: df) (auto simp: record_time_distinct)

lemma record_times_other:
  "\<forall>c\<in>set calls. (fst c, fst (snd c), fst (snd (snd c))) \<noteq> (n, t, k) \<Longrightarrow>
     rows_with_key n t k (foldl (\<lambda>d (n, t, k, x). record_time d n t k x) df calls)
       = rows_with_key n t k df"
  by (induction calls arbitrary: df) (auto simp: rows_with_key_other)

text \<open>
  Claim C8. Let the table have no key twice (as the empty table has, and as every table
  the recorder builds from it has). Two recorder calls with the same case number,
  temperature and try leave exactly one row for that key, and it holds the time of the
  later call; this stays so through calls for other keys, before, between and after. A call
  whose key matches no row appends a row; a call whose key matches leaves the number of
  rows as it is. After every call each key occurs at most once.
\<close>

theorem timing_table_one_row_per_key:
  assumes "distinct (map row_key df)"
  shows "rows_with_key n t k (record_time (record_time df n t k x1) n t k x2)
       = [\<lparr>row_number = n, row_temperature = t, row_try = k, row_time = x2\<rparr>]
    \<and> ((\<forall>c\<in>set after. (fst c, fst (snd c), fst (snd (snd c))) \<noteq> (n, t, k)) \<longrightarrow>
         rows_with_key n t k
           (foldl (\<lambda>d (n, t, k, x). record_time d n t k x)
              (record_time
                 (foldl (\<lambda>d (n, t, k, x). record_time d n t k x) (record_time df n t k x1)
                    between)
                 n t k x2)
              after)
         = [\<lparr>row_number = n, row_temperature = t, row_try = k, row_time = x2\<rparr>])
    \<and> (\<not> list_ex (key_matches n t k) df \<longrightarrow>
         record_time df n t k x
         = df @ [\<lparr>row_number = n, row_temperature = t, row_try = k, row_time = x\<rparr>])
    \<and> (list_ex (key_matches n t k) df \<longrightarrow> length (record_time df n t k x) = length df)
    \<and> distinct (map row_key (record_time df n t k x))
    \<and> length (rows_with_key n' t' k' (record_time df n t k x)) \<le> 1
    \<and> distinct (map row_key (foldl (\<lambda>d (n, t, k, x). record_time d n t k x) [] calls))"
proof -
  let ?upd = "\<lambda>d (n, t, k, x). record_time d n t k x"
  have d1: "distinct (map row_key (record_time df n t k x))" for x
    using assms by (rule record_time_distinct)
  have d2: "distinct (map row_key (foldl ?upd (record_time df n t k x1) between))"
    using d1 by (rule record_times_distinct)
  have two: "rows_with_key n t k (record_time (record_time df n t k x1) n t k x2)
       = [\<lparr>row_number = n, row_temperature = t, row_try = k, row_time = x2\<rparr>]"
    using d1 by (rule rows_with_key_same)
  have later: "rows_with_key n t k
           (foldl ?upd (record_time (foldl ?upd (record_time df n t k x1) between) n t k x2) after)
         = [\<lparr>row_number = n, row_temperature = t, row_try = k, row_time = x2\<rparr>]"
    if "\<forall>c\<in>set after. (fst c, fst (snd c), fst (snd (snd c))) \<noteq> (n, t, k)"
    using record_times_other[OF that] rows_with_key_same[OF d2] by simp
  have app: "record_time df n t k x
         = df @ [\<lparr>row_number = n, row_temperature = t, row_try = k, row_time = x\<rparr>]"
    if "\<not> list_ex (key_matches n t k) df"
    using that by (simp add: record_time_def)
  have upd: "length (record_time df n t k x) = length df" if "list_ex (key_matches n t k) df"
    using that by (simp add: record_time_def)
  have one: "length (rows_with_key n' t' k' (record_time df n t k x)) \<le> 1"
    using d1 by (rule distinct_key_at_most_one)
  have built: "distinct (map row_key (foldl ?upd [] calls))"
    by (rule record_times_distinct) simp
  show ?thesis
    using two later app upd d1 one built by blast
qed

theorem timing_table_one_row_per_key_witness:
  "distinct (map row_key ([] :: (temperature, nat) timing_row list))
   \<and> rows_with_key 1 Temp_0 1
       (record_time (record_time ([] :: (temperature, nat) timing_row list) 1 Temp_0 1 5)
          1 Temp_0 1 9)
     = [\<lparr>row_number = 1, row_temperature = Temp_0, row_try = 1, row_time = 9\<rparr>]
   \<and> rows_with_key 1 Temp_0 1
       (foldl (\<lambda>d (n, t, k, x). record_time d n t k x)
          (record_time
             (foldl (\<lambda>d (n, t, k, x). record_time d n t k x)
                (record_time ([] :: (temperature, nat) timing_row list) 1 Temp_0 1 5)
                [(2, Temp_0, 1, 3)])
             1 Temp_0 1 9)
          [(1, Temp_1, 1, 4)])
     = [\<lparr>row_number = 1, row_temperature = Temp_0, row_try = 1, row_time = 9\<rparr>]"
proof -
  have d: "distinct (map row_key ([] :: (temperature, nat) timing_row list))" by simp
  note T = timing_table_one_row_per_key[OF d, where n = 1 and t = Temp_0 and k = 1 and ?x1.0 = 5
      and ?x2.0 = 9 and between = "[(2, Temp_0, 1, 3)]" and after = "[(1, Temp_1, 1, 4)]"]
  from T[THEN conjunct1] T[THEN conjunct2, THEN conjunct1] d show ?thesis by simp
qed

section \<open>Properties of the batch runner\<close>

lemma process_case_skip:
  "path_exists (s\<lparr>dirs := insert result_folder (dirs s)\<rparr>) (result_file_path result_folder row)
     \<Longrightarrow> process_case E temperature try_number result_folder index row s
         = (None, s\<lparr>dirs := insert result_folder (dirs s)\<rparr>)"
  by (simp add: process_case_def Let_def)

lemma process_rows_skip:
  assumes "\<forall>row\<in>set (map snd rows). result_file_path result_folder row \<in> dom (files s)"
    and "result_folder \<in> dirs s"
  shows "process_rows E temperature try_number result_folder rows s = (None, s)"
  using assms
proof (induction rows)
  case Nil
  show ?case by simp
next
  case (Cons a rows)
  obtain index row where a: "a = (index, row)" by (cases a)
  have same: "s\<lparr>dirs := insert result_folder (dirs s)\<rparr> = s"
    using Cons.prems(2) by (simp add: insert_absorb)
  have "path_exists s (result_file_path result_folder row)"
    using Cons.prems(1) a by (simp add: path_exists_def)
  then have "process_case E temperature try_number result_folder index row s = (None, s)"
    using process_case_skip[where s = s and result_folder = result_folder and row = row] same
    by simp
  with Cons a show ?case by simp
qed

lemma process_tries_skip:
  assumes "\<forall>row\<in>set (cases E).
      result_file_path (folder_name base_result_folder temperature 1) row \<in> dom (files s)"
  shows "process_tries E temperature [1..<2] s
     = (None, s\<lparr>dirs := insert (folder_name base_result_folder temperature 1) (dirs s)\<rparr>)"
proof -
  let ?f = "folder_name base_result_folder temperature 1"
  let ?s = "s\<lparr>dirs := insert ?f (dirs s)\<rparr>"
  have "process_rows E temperature 1 ?f (zip [0..<length (cases E)] (cases E)) ?s = (None, ?s)"
  proof (rule process_rows_skip)
    have "set (map snd (zip [0..<length (cases E)] (cases E))) \<subseteq> set (cases E)"
      by (auto dest: set_zip_rightD)
    then show "\<forall>row\<in>set (map snd (zip [0..<length (cases E)] (cases E))).
        result_file_path ?f row \<in> dom (files ?s)"
      using assms by auto
    show "?f \<in> dirs ?s" by simp
  qed
  moreover have "[1..<2] = [1::nat]" by (simp add: upt_rec)
  ultimately show ?thesis
    by (simp add: create_result_folder_def Let_def)
qed

lemma process_temperatures_skip:
  assumes "\<forall>temperature\<in>set ts. \<forall>row\<in>set (cases E).
      result_file_path (folder_name base_result_folder temperature 1) row \<in> dom (files s)"
  shows "process_temperatures E ts s
     = (None, s\<lparr>dirs := dirs s \<union> (\<lambda>t. folder_name base_result_folder t 1) ` set ts\<rparr>)"
  using assms
proof (induction ts arbitrary: s)
  case Nil
  show ?case by simp
next
  case (Cons t ts)
  let ?s = "s\<lparr>dirs := insert (folder_name base_result_folder t 1) (dirs s)\<rparr>"
  have step: "process_tries E t [1..<2] s = (None, ?s)"
    using Cons.prems by (intro process_tries_skip) simp
  have "process_temperatures E ts ?s
     = (None, ?s\<lparr>dirs := dirs ?s \<union> (\<lambda>t. folder_name base_result_folder t 1) ` set ts\<rparr>)"
    using Cons.prems by (intro Cons.IH) simp
  with step show ?case by simp
qed

lemma gpt4o_main_skip:
  assumes "\<forall>temperature\<in>set temperatures. \<forall>row\<in>set (cases E).
      result_file_path (folder_name base_result_folder temperature 1) row \<in> dom (files s)"
  shows "gpt4o_main E s
     = (None,
        s\<lparr>df_execution_times := load_or_initialize_execution_times (sheets s) time_file_name,
          dirs := dirs s \<union> (\<lambda>t. folder_name base_result_folder t 1) ` set temperatures,
          sheets := (sheets s)(time_file_name \<mapsto>
                      load_or_initialize_execution_times (sheets s) time_file_name)\<rparr>)"
proof -
  let ?s = "s\<lparr>df_execution_times := load_or_initialize_execution_times (sheets s) time_file_name\<rparr>"
  have "process_temperatures E temperatures ?s
     = (None, ?s\<lparr>dirs := dirs ?s \<union> (\<lambda>t. folder_name base_result_folder t 1) ` set temperatures\<rparr>)"
    using assms by (intro process_temperatures_skip) simp
  then show ?thesis
    by (simp add: gpt4o_main_def Let_def save_execution_times_to_excel_def)
qed

text \<open>
  Claim C7. A case whose result file exists is skipped whatever the file holds: the
  state is as before, but for the result folder being registered as a directory. When
  the result file of every case exists for every temperature, the whole script ends
  without an exception, makes no provider call, leaves the outside world and every text
  file on disk as they were, leaves every workbook that existed with the table it held,
  and running it again from the state reached gives that state again.
\<close>

theorem rerun_skips_existing_results:
  assumes "\<forall>temperature\<in>set temperatures. \<forall>row\<in>set (cases E).
      result_file_path (folder_name base_result_folder temperature 1) row \<in> dom (files s)"
  shows "fst (gpt4o_main E s) = None
    \<and> requests (snd (gpt4o_main E s)) = requests s
    \<and> world (snd (gpt4o_main E s)) = world s
    \<and> files (snd (gpt4o_main E s)) = files s
    \<and> (\<forall>p\<in>dom (sheets s). sheets (snd (gpt4o_main E s)) p = sheets s p)
    \<and> gpt4o_main E (snd (gpt4o_main E s)) = gpt4o_main E s
    \<and> (\<forall>temperature try_number result_folder index row.
          result_file_path result_folder row \<in> dom (files s) \<longrightarrow>
          process_case E temperature try_number result_folder index row s
            = (None, s\<lparr>dirs := insert result_folder (dirs s)\<rparr>))"
proof -
  let ?D = "load_or_initialize_execution_times (sheets s) time_file_name"
  let ?s' = "s\<lparr>df_execution_times := ?D,
          dirs := dirs s \<union> (\<lambda>t. folder_name base_result_folder t 1) ` set temperatures,
          sheets := (sheets s)(time_file_name \<mapsto> ?D)\<rparr>"
  have run: "gpt4o_main E s = (None, ?s')"
    using assms by (rule gpt4o_main_skip)
  have kept: "sheets ?s' p = sheets s p" if "p \<in> dom (sheets s)" for p
    using that by (auto simp: load_or_initialize_execution_times_def)
  have again: "gpt4o_main E ?s' = (None, ?s')"
  proof -
    have "\<forall>temperature\<in>set temperatures. \<forall>row\<in>set (cases E).
        result_file_path (folder_name base_result_folder temperature 1) row \<in> dom (files ?s')"
      using assms by simp
    from gpt4o_main_skip[OF this] show ?thesis
      by (simp add: load_or_initialize_execution_times_def Un_assoc)
  qed
  have skip: "process_case E temperature try_number result_folder index row s
            = (None, s\<lparr>dirs := insert result_folder (dirs s)\<rparr>)"
    if "result_file_path result_folder row \<in> dom (files s)"
    for temperature try_number result_folder index row
    using that by (intro process_case_skip) (simp add: path_exists_def)
  show ?thesis
    unfolding run using kept again skip by simp
qed

theorem rerun_skips_existing_results_witness:
  "fst (gpt4o_main (sample_env (Raise ''unused''))
          (sample_state
             [(''gpt4o_result/gpt4o_result_temp_0_try1/7.png.txt'', ''''),
              (''gpt4o_result/gpt4o_result_temp_0_5_try1/7.png.txt'', ''1. CT''),
              (''gpt4o_result/gpt4o_result_temp_1_try1/7.png.txt'', ''1. MR'')]
             [])) = None
   \<and> requests (snd (gpt4o_main (sample_env (Raise ''unused''))
          (sample_state
             [(''gpt4o_result/gpt4o_result_temp_0_try1/7.png.txt'', ''''),
              (''gpt4o_result/gpt4o_result_temp_0_5_try1/7.png.txt'', ''1. CT''),
              (''gpt4o_result/gpt4o_result_temp_1_try1/7.png.txt'', ''1. MR'')]
             []))) = []
   \<and> files (snd (gpt4o_main (sample_env (Raise ''unused''))
          (sample_state
             [(''gpt4o_result/gpt4o_result_temp_0_try1/7.png.txt'', ''''),
              (''gpt4o_result/gpt4o_result_temp_0_5_try1/7.png.txt'', ''1. CT''),
              (''gpt4o_result/gpt4o_result_temp_1_try1/7.png.txt'', ''1. MR'')]
             []))) ''gpt4o_result/gpt4o_result_temp_0_try1/7.png.txt'' = Some ''''"
proof -
  let ?E = "sample_env (Raise ''unused'')"
  let ?s = "sample_state
             [(''gpt4o_result/gpt4o_result_temp_0_try1/7.png.txt'', ''''),
              (''gpt4o_result/gpt4o_result_temp_0_5_try1/7.png.txt'', ''1. CT''),
              (''gpt4o_result/gpt4o_result_temp_1_try1/7.png.txt'', ''1. MR'')]
             []"
  have "\<forall>temperature\<in>set temperatures. \<forall>row\<in>set (cases ?E).
      result_file_path (folder_name base_result_folder temperature 1) row \<in> dom (files ?s)"
    by (simp add: runner_eval)
  from rerun_skips_existing_results[OF this] show ?thesis
    by (simp add: sample_state_def)
qed

section \<open>The result file of a processed case\<close>

lemma rev_path_join: "\<exists>front. rev (path_join a b) = rev b @ front"
  by (auto simp: path_join_def)

lemma result_path_not_log: "result_file_path result_folder row \<noteq> log_file_path"
proof
  assume eq: "result_file_path result_folder row = log_file_path"
  obtain front where
    "rev (result_file_path result_folder row) = rev (image_file_name row @ ''.txt'') @ front"
    unfolding result_file_path_def using rev_path_join by blast
  then have "take 5 (rev (result_file_path result_folder row)) = ''txt.g''"
    by (simp add: image_file_name_def)
  moreover have "take 5 (rev log_file_path) = ''txt.o''"
    by (simp add: log_file_path_def)
  ultimately show False using eq by simp
qed

text \<open>
  Claim C10, as the code has it. For a case that is not skipped and whose image is
  encoded without an exception: when the client returns a response, the result file is
  written with the text of the response, whatever that text is, an empty text included;
  when the client returns \<open>None\<close>, no result file is written and the failure line is
  appended to the log file; when an exception leaves the client, the script ends with it
  and no file is written. So the result file exists afterwards exactly when the client
  returned a response. In the first two cases the time is recorded; in every case the
  calls made are the client's.
\<close>

theorem result_file_written_iff_response:
  fixes E :: "('img, 'f, 'w, 'tm) env" and s :: "('w, 'tm) run_state"
    and index try_number :: nat
  assumes fresh: "\<not> path_exists (s\<lparr>dirs := insert result_folder (dirs s)\<rparr>)
                      (result_file_path result_folder row)"
    and imgs: "encode_images_from_paths (lib E) [path_join ''q401_image'' (image_file_name row)]
                 = Inr encoded_images"
    and call: "analyze_images_with_gpt4_vision (lib E) (provider E) (prompt_text E row)
                 encoded_images temperature (world s) = (res, calls, w')"
  defines "out \<equiv> process_case E temperature try_number result_folder index row s"
  shows "(\<forall>content. res = Inr (Some content) \<longrightarrow>
            fst out = None
            \<and> files (snd out) = (files s)(result_file_path result_folder row \<mapsto> content))
    \<and> (res = Inr None \<longrightarrow>
            fst out = None
            \<and> files (snd out) = (files s)(log_file_path \<mapsto>
                 (case files s log_file_path of None \<Rightarrow> [] | Some old \<Rightarrow> old)
                 @ no_results_message (index + 1) temperature try_number @ [CHR 0x0A]))
    \<and> (\<forall>e. res = Inl e \<longrightarrow> fst out = Some e \<and> files (snd out) = files s)
    \<and> (files (snd out) (result_file_path result_folder row) \<noteq> None
          \<longleftrightarrow> (\<exists>content. res = Inr (Some content)))
    \<and> requests (snd out) = requests s @ calls
    \<and> world (snd out) = w'
    \<and> (\<forall>r. res = Inr r \<longrightarrow>
          df_execution_times (snd out)
            = record_time (df_execution_times s) (index + 1) temperature try_number
                (elapsed E (world s) w'))"
proof -
  have absent: "files s (result_file_path result_folder row) = None"
    using fresh by (auto simp: path_exists_def)
  have some: "out = (None, s\<lparr>dirs := insert result_folder (dirs s), world := w',
        requests := requests s @ calls,
        df_execution_times := record_time (df_execution_times s) (index + 1) temperature
          try_number (elapsed E (world s) w'),
        files := (files s)(result_file_path result_folder row \<mapsto> content)\<rparr>)"
    if "res = Inr (Some content)" for content
    using fresh imgs call that by (simp add: out_def process_case_def Let_def)
  have none: "out = (None, log_message (no_results_message (index + 1) temperature try_number)
        (s\<lparr>dirs := insert result_folder (dirs s), world := w',
          requests := requests s @ calls,
          df_execution_times := record_time (df_execution_times s) (index + 1) temperature
            try_number (elapsed E (world s) w')\<rparr>))"
    if "res = Inr None"
    using fresh imgs call that by (simp add: out_def process_case_def Let_def)
  have err: "out = (Some e, s\<lparr>dirs := insert result_folder (dirs s), world := w',
        requests := requests s @ calls\<rparr>)"
    if "res = Inl e" for e
    using fresh imgs call that by (simp add: out_def process_case_def Let_def)
  show ?thesis
  proof (cases res)
    case (Inl e)
    with err[OF Inl] absent show ?thesis by simp
  next
    case (Inr r)
    show ?thesis
    proof (cases r)
      case None
      with none Inr absent result_path_not_log[of result_folder row] show ?thesis
        by (simp add: log_message_def)
    next
      case (Some content)
      with some Inr show ?thesis by simp
    qed
  qed
qed

theorem result_file_written_iff_response_witness:
  "files (snd (process_case (sample_env (Raise ''unused'')) Temp_0 1
          ''gpt4o_result/gpt4o_result_temp_0_try1'' 0
          \<lparr>case_no = ''7'', case_age = ''54'', case_sex = ''F'', case_symptom = ''headache''\<rparr>
          (sample_state [] [])))
        ''./process_log_gpt4o.txt''
     = Some ''Case 1 (Temperature: 0, Try: 1): No results found.\<newline>''
   \<and> files (snd (process_case (sample_env (Raise ''unused'')) Temp_0 1
          ''gpt4o_result/gpt4o_result_temp_0_try1'' 0
          \<lparr>case_no = ''7'', case_age = ''54'', case_sex = ''F'', case_symptom = ''headache''\<rparr>
          (sample_state [] [])))
        ''gpt4o_result/gpt4o_result_temp_0_try1/7.png.txt'' = None"
proof -
  let ?E = "sample_env (Raise ''unused'')"
  let ?row = "\<lparr>case_no = ''7'', case_age = ''54'', case_sex = ''F'', case_symptom = ''headache''\<rparr>"
  let ?s = "sample_state [] [] :: (string outcome list, nat) run_state"
  let ?folder = "''gpt4o_result/gpt4o_result_temp_0_try1''"
  let ?a = "analyze_images_with_gpt4_vision (lib ?E) (provider ?E) (prompt_text ?E ?row)
      [replicate 32000 CHR ''A''] Temp_0 (world ?s)"
  have fresh: "\<not> path_exists (?s\<lparr>dirs := insert ?folder (dirs ?s)\<rparr>)
      (result_file_path ?folder ?row)"
    by (simp add: path_exists_def runner_eval)
  have imgs: "encode_images_from_paths (lib ?E) [path_join ''q401_image'' (image_file_name ?row)]
      = Inr [replicate 32000 CHR ''A'']"
    by (simp add: runner_eval encoder_eval)
  have call: "?a = (fst ?a, fst (snd ?a), snd (snd ?a))" by simp
  have res: "fst ?a = Inr None"
    by (simp add: sample_env_def sample_state_def client_eval string_eval)
  note T = result_file_written_iff_response[OF fresh imgs call, where index = 0
      and try_number = 1, THEN conjunct2, THEN conjunct1, rule_format, OF res]
  then show ?thesis
    by (simp add: sample_state_def log_file_path_def no_results_message_def
        str_nat.simps digit_char_def result_file_path_def image_file_name_def path_join_def
        startswith_def)
qed

text \<open>
  The claim as stated fails: a response with an empty text is a result, so the runner
  writes an empty result file and logs nothing.
\<close>

theorem empty_response_written_as_result:
  "fst (process_case (sample_env (Raise ''unused'')) Temp_0 1
          ''gpt4o_result/gpt4o_result_temp_0_try1'' 0
          \<lparr>case_no = ''7'', case_age = ''54'', case_sex = ''F'', case_symptom = ''headache''\<rparr>
          (sample_state [] [Reply ''''])) = None
   \<and> files (snd (process_case (sample_env (Raise ''unused'')) Temp_0 1
          ''gpt4o_result/gpt4o_result_temp_0_try1'' 0
          \<lparr>case_no = ''7'', case_age = ''54'', case_sex = ''F'', case_symptom = ''headache''\<rparr>
          (sample_state [] [Reply ''''])))
        ''gpt4o_result/gpt4o_result_temp_0_try1/7.png.txt'' = Some ''''
   \<and> files (snd (process_case (sample_env (Raise ''unused'')) Temp_0 1
          ''gpt4o_result/gpt4o_result_temp_0_try1'' 0
          \<lparr>case_no = ''7'', case_age = ''54'', case_sex = ''F'', case_symptom = ''headache''\<rparr>
          (sample_state [] [Reply ''''])))
        ''./process_log_gpt4o.txt'' = None
   \<and> requests (snd (process_case (sample_env (Raise ''unused'')) Temp_0 1
          ''gpt4o_result/gpt4o_result_temp_0_try1'' 0
          \<lparr>case_no = ''7'', case_age = ''54'', case_sex = ''F'', case_symptom = ''headache''\<rparr>
          (sample_state [] [Reply ''''])))
      = [(\<lparr>req_prompt = ''Patient: age: 54, sex: F; symptom: headache.'',
            req_images = [replicate 32000 CHR ''A''], req_temperature = Temp_0\<rparr>,
          Reply '''')]"
  by (simp add: process_case_def path_exists_def prompt_text_def runner_eval encoder_eval
      client_eval string_eval)

end
